theory Spec2Isabelle
  imports Main
begin

section \<open>Conventions of the embedding\<close>

text \<open>
  Go's \<open>int\<close> is modelled by \<open>int\<close>: every counter of the library stays within
  \<open>[-1, 100]\<close> (or within a caller-chosen capacity), so wrap-around never occurs.

  A Go \<open>error\<close> value is the message given to \<open>errors.New\<close>; the \<open>nil\<close> error is
  \<open>None\<close>.  A method with a pointer receiver takes the receiver and returns it updated.

  A run-time panic (index out of range on a fixed-size array, nil pointer dereference) is the
  result \<open>None\<close> of the whole call; \<open>Some\<close> is a normal return.

  The element type \<open>T\<close> (int, float32 or float64) is a type with a \<open>0\<close>, the value the source
  returns beside an error.
\<close>

type_synonym error = string

subsection \<open>Fixed-size Go arrays\<close>

text \<open>
  A Go array \<open>[N]T\<close> is a list of length \<open>N\<close>.  Reading or writing outside \<open>[0, N)\<close> panics.
\<close>

definition rd :: "'a list \<Rightarrow> int \<Rightarrow> 'a option" where
  "rd xs i = (if 0 \<le> i \<and> i < int (length xs) then Some (xs ! nat i) else None)"

definition wr :: "'a list \<Rightarrow> int \<Rightarrow> 'a \<Rightarrow> 'a list option" where
  "wr xs i v = (if 0 \<le> i \<and> i < int (length xs) then Some (xs[nat i := v]) else None)"

section \<open>Package array (src/array/array.go)\<close>

definition ArrayMaxSize :: int where
  "ArrayMaxSize = 100"

record 'a array =
  arr :: "'a list"
  size_a :: int

definition ErrArrayFull :: error where
  "ErrArrayFull = ''Array is full''"

definition ErrArrayEmpty :: error where
  "ErrArrayEmpty = ''Array is empty''"

definition ErrIndexOutOfBounds :: error where
  "ErrIndexOutOfBounds = ''Index out of bounds''"

definition ErrElementNotFound :: error where
  "ErrElementNotFound = ''Element not found''"

definition ErrCannotFit :: error where
  "ErrCannotFit = ''Cannot fit both arrays completely''"

definition New :: "'a::zero array" where
  "New = \<lparr>arr = replicate (nat ArrayMaxSize) 0, size_a = 0\<rparr>"

definition Size :: "'a array \<Rightarrow> int" where
  "Size a = size_a a"

definition PushElement :: "'a array \<Rightarrow> 'a \<Rightarrow> ('a array \<times> error option) option" where
  "PushElement a element =
     (if size_a a = ArrayMaxSize then Some (a, Some ErrArrayFull)
      else case wr (arr a) (size_a a) element of
             None \<Rightarrow> None
           | Some xs \<Rightarrow> Some (a\<lparr>arr := xs, size_a := size_a a + 1\<rparr>, None))"

text \<open>
  Pushing a sequence of values, as the demonstration program does to fill its arrays; the
  result is the final array when every push returned a nil error.
\<close>

fun PushElement_all :: "'a array \<Rightarrow> 'a list \<Rightarrow> 'a array option" where
  "PushElement_all a [] = Some a"
| "PushElement_all a (x # xs) =
     (case PushElement a x of
        Some (a', None) \<Rightarrow> PushElement_all a' xs
      | _ \<Rightarrow> None)"

definition PopElement :: "'a::zero array \<Rightarrow> ('a array \<times> 'a \<times> error option) option" where
  "PopElement a =
     (if size_a a = 0 then Some (a, 0, Some ErrArrayEmpty)
      else let a' = a\<lparr>size_a := size_a a - 1\<rparr> in
           case rd (arr a') (size_a a') of
             None \<Rightarrow> None
           | Some v \<Rightarrow> Some (a', v, None))"

text \<open>The loop \<open>for i := arr.size - 1; i >= index; i-- { arr.arr[i+1] = arr.arr[i] }\<close>.\<close>

function InsertElement_shift :: "'a list \<Rightarrow> int \<Rightarrow> int \<Rightarrow> 'a list option" where
  "InsertElement_shift xs i index =
     (if i \<ge> index then
        (case rd xs i of
           None \<Rightarrow> None
         | Some v \<Rightarrow>
             (case wr xs (i + 1) v of
                None \<Rightarrow> None
              | Some xs' \<Rightarrow> InsertElement_shift xs' (i - 1) index))
      else Some xs)"
  by pat_completeness auto
termination
  by (relation "measure (\<lambda>(xs, i, index). nat (i - index + 1))") auto

definition InsertElement :: "'a array \<Rightarrow> 'a \<Rightarrow> int \<Rightarrow> ('a array \<times> error option) option" where
  "InsertElement a element index =
     (if index < 0 \<or> index > size_a a then Some (a, Some ErrIndexOutOfBounds)
      else if size_a a = ArrayMaxSize then Some (a, Some ErrArrayFull)
      else case InsertElement_shift (arr a) (size_a a - 1) index of
             None \<Rightarrow> None
           | Some xs \<Rightarrow>
               (case wr xs index element of
                  None \<Rightarrow> None
                | Some xs' \<Rightarrow> Some (a\<lparr>arr := xs', size_a := size_a a + 1\<rparr>, None)))"

text \<open>The loop \<open>for i := index; i < arr.size-1; i++ { arr.arr[i] = arr.arr[i+1] }\<close>.\<close>

function RemoveAtIndex_shift :: "'a list \<Rightarrow> int \<Rightarrow> int \<Rightarrow> 'a list option" where
  "RemoveAtIndex_shift xs i sz =
     (if i < sz - 1 then
        (case rd xs (i + 1) of
           None \<Rightarrow> None
         | Some v \<Rightarrow>
             (case wr xs i v of
                None \<Rightarrow> None
              | Some xs' \<Rightarrow> RemoveAtIndex_shift xs' (i + 1) sz))
      else Some xs)"
  by pat_completeness auto
termination
  by (relation "measure (\<lambda>(xs, i, sz). nat (sz - 1 - i))") auto

definition RemoveAtIndex :: "'a array \<Rightarrow> int \<Rightarrow> ('a array \<times> error option) option" where
  "RemoveAtIndex a index =
     (if index < 0 \<or> index \<ge> size_a a then Some (a, Some ErrIndexOutOfBounds)
      else if size_a a = 0 then Some (a, Some ErrArrayEmpty)
      else case RemoveAtIndex_shift (arr a) index (size_a a) of
             None \<Rightarrow> None
           | Some xs \<Rightarrow> Some (a\<lparr>arr := xs, size_a := size_a a - 1\<rparr>, None))"

definition Get :: "'a::zero array \<Rightarrow> int \<Rightarrow> ('a array \<times> 'a \<times> error option) option" where
  "Get a index =
     (if index < 0 \<or> index \<ge> size_a a then Some (a, 0, Some ErrIndexOutOfBounds)
      else case rd (arr a) index of
             None \<Rightarrow> None
           | Some v \<Rightarrow> Some (a, v, None))"

definition Set_a :: "'a array \<Rightarrow> int \<Rightarrow> 'a \<Rightarrow> ('a array \<times> error option) option" where
  "Set_a a index val =
     (if index < 0 \<or> index \<ge> size_a a then Some (a, Some ErrIndexOutOfBounds)
      else case wr (arr a) index val of
             None \<Rightarrow> None
           | Some xs \<Rightarrow> Some (a\<lparr>arr := xs\<rparr>, None))"

text \<open>The loop of \<open>IndexOf\<close>; the result is the pair the method returns.\<close>

function IndexOf_scan :: "'a array \<Rightarrow> 'a \<Rightarrow> int \<Rightarrow> (int \<times> error option) option" where
  "IndexOf_scan a element i =
     (if i < size_a a then
        (case rd (arr a) i of
           None \<Rightarrow> None
         | Some v \<Rightarrow> if v = element then Some (i, None) else IndexOf_scan a element (i + 1))
      else Some (- 1, Some ErrElementNotFound))"
  by pat_completeness auto
termination
  by (relation "measure (\<lambda>(a, element, i). nat (size_a a - i))") auto

definition IndexOf :: "'a array \<Rightarrow> 'a \<Rightarrow> (int \<times> error option) option" where
  "IndexOf a element = IndexOf_scan a element 0"

subsection \<open>PrintAll\<close>

text \<open>
  The output sink is the list of items written so far: a literal string or an element.
  \<open>fmt.Print(x, ", ")\<close> writes \<open>x\<close> and the string; \<open>fmt.Println(x, "]")\<close> writes \<open>x\<close>, a space,
  the string and a newline.  The second component of the result tells whether the call
  returned (\<open>True\<close>) or panicked (\<open>False\<close>); what was written before a panic stays written.
\<close>

datatype 'a item = Lit string | Elem 'a

function PrintAll_loop :: "'a array \<Rightarrow> int \<Rightarrow> 'a item list \<Rightarrow> 'a item list \<times> bool" where
  "PrintAll_loop a i out =
     (if i < size_a a - 1 then
        (case rd (arr a) i of
           None \<Rightarrow> (out, False)
         | Some v \<Rightarrow> PrintAll_loop a (i + 1) (out @ [Elem v, Lit '', '']))
      else (out, True))"
  by pat_completeness auto
termination
  by (relation "measure (\<lambda>(a, i, out). nat (size_a a - 1 - i))") auto

definition PrintAll :: "'a array \<Rightarrow> 'a item list \<Rightarrow> 'a item list \<times> bool" where
  "PrintAll a out =
     (case PrintAll_loop a 0 (out @ [Lit ''[ '']) of
        (out', False) \<Rightarrow> (out', False)
      | (out', True) \<Rightarrow>
          (case rd (arr a) (size_a a - 1) of
             None \<Rightarrow> (out', False)
           | Some v \<Rightarrow> (out' @ [Elem v, Lit '' ]'', Lit [CHR 0x0A]], True)))"

subsection \<open>Merge\<close>

text \<open>
  First loop: \<open>for i := 0; i < arr.size; i++ { res.arr[i] = arr.arr[i]; res.size++ }\<close>.
\<close>

function Merge_copy :: "'a array \<Rightarrow> 'a array \<Rightarrow> int \<Rightarrow> 'a array option" where
  "Merge_copy a res i =
     (if i < size_a a then
        (case rd (arr a) i of
           None \<Rightarrow> None
         | Some v \<Rightarrow>
             (case wr (arr res) i v of
                None \<Rightarrow> None
              | Some xs \<Rightarrow> Merge_copy a (res\<lparr>arr := xs, size_a := size_a res + 1\<rparr>) (i + 1)))
      else Some res)"
  by pat_completeness auto
termination
  by (relation "measure (\<lambda>(a, res, i). nat (size_a a - i))") auto

text \<open>
  Second loop: the element is stored and the size incremented before the test that breaks
  out of the loop.
\<close>

function Merge_append :: "'a array \<Rightarrow> 'a array \<Rightarrow> 'a array \<Rightarrow> int \<Rightarrow> 'a array option" where
  "Merge_append a otherArr res i =
     (if i < size_a otherArr then
        (case rd (arr otherArr) i of
           None \<Rightarrow> None
         | Some v \<Rightarrow>
             (case wr (arr res) (size_a a + i) v of
                None \<Rightarrow> None
              | Some xs \<Rightarrow>
                  (let res' = res\<lparr>arr := xs, size_a := size_a res + 1\<rparr> in
                   if size_a res' = ArrayMaxSize then Some res'
                   else Merge_append a otherArr res' (i + 1))))
      else Some res)"
  by pat_completeness auto
termination
  by (relation "measure (\<lambda>(a, otherArr, res, i). nat (size_a otherArr - i))") auto

definition Merge :: "'a::zero array \<Rightarrow> 'a array \<Rightarrow> ('a array \<times> error option) option" where
  "Merge a otherArr =
     (case Merge_copy a New 0 of
        None \<Rightarrow> None
      | Some res \<Rightarrow>
          (case Merge_append a otherArr res 0 of
             None \<Rightarrow> None
           | Some res' \<Rightarrow>
               if size_a a + size_a otherArr > ArrayMaxSize then Some (res', Some ErrCannotFit)
               else Some (res', None)))"

subsection \<open>Well-formed arrays\<close>

text \<open>
  The fields of an array are well formed when the buffer has \<open>ArrayMaxSize\<close> slots, as its
  type says, and the size is within \<open>[0, ArrayMaxSize]\<close>; the live elements are the first
  \<open>size\<close> slots.
\<close>

definition array_wf :: "'a array \<Rightarrow> bool" where
  "array_wf a =
     (int (length (arr a)) = ArrayMaxSize \<and> 0 \<le> size_a a \<and> size_a a \<le> ArrayMaxSize)"

definition live :: "'a array \<Rightarrow> 'a list" where
  "live a = take (nat (size_a a)) (arr a)"

section \<open>Package stack (src/unnamed/part_000)\<close>

definition StackMaxSize :: int where
  "StackMaxSize = 100"

definition ErrStackOverflow :: error where
  "ErrStackOverflow = ''Stack Overflow!!!''"

definition ErrStackUnderflow :: error where
  "ErrStackUnderflow = ''Stack Underflow!!!''"

subsection \<open>stackArray\<close>

record 'a stackArray =
  arr_s :: "'a list"
  top_s :: int

definition NewArray :: "'a::zero stackArray" where
  "NewArray = \<lparr>arr_s = replicate (nat StackMaxSize) 0, top_s = - 1\<rparr>"

definition stackArray_Push :: "'a stackArray \<Rightarrow> 'a \<Rightarrow> ('a stackArray \<times> error option) option" where
  "stackArray_Push stack element =
     (if top_s stack = StackMaxSize - 1 then Some (stack, Some ErrStackOverflow)
      else case wr (arr_s stack) (top_s stack + 1) element of
             None \<Rightarrow> None
           | Some xs \<Rightarrow> Some (stack\<lparr>arr_s := xs, top_s := top_s stack + 1\<rparr>, None))"

definition stackArray_Pop :: "'a::zero stackArray \<Rightarrow> ('a stackArray \<times> 'a \<times> error option) option" where
  "stackArray_Pop stack =
     (if top_s stack = - 1 then Some (stack, 0, Some ErrStackUnderflow)
      else let stack' = stack\<lparr>top_s := top_s stack - 1\<rparr> in
           case rd (arr_s stack') (top_s stack' + 1) of
             None \<Rightarrow> None
           | Some v \<Rightarrow> Some (stack', v, None))"

definition stackArray_Top :: "'a stackArray \<Rightarrow> int" where
  "stackArray_Top stack = top_s stack"

definition stackArray_IsEmpty :: "'a stackArray \<Rightarrow> bool" where
  "stackArray_IsEmpty s = (top_s s = - 1)"

text \<open>The loop \<open>for i := stack.top; i >= 0; i-- { fmt.Print(stack.arr[i], " ") }\<close>.\<close>

function stackArray_Print_loop :: "'a stackArray \<Rightarrow> int \<Rightarrow> 'a item list \<Rightarrow> 'a item list \<times> bool" where
  "stackArray_Print_loop stack i out =
     (if i \<ge> 0 then
        (case rd (arr_s stack) i of
           None \<Rightarrow> (out, False)
         | Some v \<Rightarrow> stackArray_Print_loop stack (i - 1) (out @ [Elem v, Lit '' '']))
      else (out, True))"
  by pat_completeness auto
termination
  by (relation "measure (\<lambda>(stack, i, out). nat (i + 1))") auto

definition stackArray_Print :: "'a stackArray \<Rightarrow> 'a item list \<Rightarrow> 'a item list \<times> bool" where
  "stackArray_Print stack out =
     (case stackArray_Print_loop stack (top_s stack) (out @ [Lit ''[ '']) of
        (out', False) \<Rightarrow> (out', False)
      | (out', True) \<Rightarrow> (out' @ [Lit [CHR '']'', CHR 0x0A]], True))"

subsection \<open>stackList\<close>

text \<open>
  A value of type \<open>*node[T]\<close> is \<open>nil\<close> or a node with its \<open>Next\<close> pointer and its \<open>Val\<close>.
  Every node is created by \<open>Push\<close> and referenced by exactly one pointer (the stack's
  \<open>topNode\<close> or the \<open>Next\<close> field of the node above it), so the chain is a value.
\<close>

datatype 'a node = Nil_node | Node "'a node" 'a

record 'a stackList =
  topNode :: "'a node"
  top_l :: int
  capacity :: int

text \<open>\<open>NewList(capacity ...int)\<close>: the variadic argument is the list of the values passed.\<close>

definition NewList :: "int list \<Rightarrow> 'a stackList" where
  "NewList cap =
     (if length cap = 0 then \<lparr>topNode = Nil_node, top_l = - 1, capacity = StackMaxSize\<rparr>
      else \<lparr>topNode = Nil_node, top_l = - 1, capacity = hd cap\<rparr>)"

definition stackList_Push :: "'a stackList \<Rightarrow> 'a \<Rightarrow> ('a stackList \<times> error option) option" where
  "stackList_Push stack element =
     (if top_l stack = capacity stack - 1 then Some (stack, Some ErrStackOverflow)
      else let newTop = Node (topNode stack) element in
           Some (stack\<lparr>topNode := newTop, top_l := top_l stack + 1\<rparr>, None))"

definition stackList_Pop :: "'a::zero stackList \<Rightarrow> ('a stackList \<times> 'a \<times> error option) option" where
  "stackList_Pop stack =
     (if top_l stack = - 1 then Some (stack, 0, Some ErrStackUnderflow)
      else case topNode stack of
             Nil_node \<Rightarrow> None
           | Node nxt v \<Rightarrow> Some (stack\<lparr>topNode := nxt, top_l := top_l stack - 1\<rparr>, v, None))"

definition stackList_IsEmpty :: "'a stackList \<Rightarrow> bool" where
  "stackList_IsEmpty s = (top_l s = - 1)"

subsection \<open>Sequences of pushes and pops\<close>

text \<open>
  \<open>push_all\<close> pushes the values in order and returns the final stack when every push returned
  a nil error; \<open>pop_n\<close> pops \<open>n\<close> times and returns the final stack with the values in the order
  they were popped, when every pop returned a nil error.  A panic or an error gives \<open>None\<close>.
\<close>

fun stackArray_push_all :: "'a stackArray \<Rightarrow> 'a list \<Rightarrow> 'a stackArray option" where
  "stackArray_push_all s [] = Some s"
| "stackArray_push_all s (x # xs) =
     (case stackArray_Push s x of
        Some (s', None) \<Rightarrow> stackArray_push_all s' xs
      | _ \<Rightarrow> None)"

fun stackArray_pop_n :: "'a::zero stackArray \<Rightarrow> nat \<Rightarrow> ('a stackArray \<times> 'a list) option" where
  "stackArray_pop_n s 0 = Some (s, [])"
| "stackArray_pop_n s (Suc n) =
     (case stackArray_Pop s of
        Some (s', v, None) \<Rightarrow>
          (case stackArray_pop_n s' n of
             None \<Rightarrow> None
           | Some (s'', vs) \<Rightarrow> Some (s'', v # vs))
      | _ \<Rightarrow> None)"

fun stackList_push_all :: "'a stackList \<Rightarrow> 'a list \<Rightarrow> 'a stackList option" where
  "stackList_push_all s [] = Some s"
| "stackList_push_all s (x # xs) =
     (case stackList_Push s x of
        Some (s', None) \<Rightarrow> stackList_push_all s' xs
      | _ \<Rightarrow> None)"

fun stackList_pop_n :: "'a::zero stackList \<Rightarrow> nat \<Rightarrow> ('a stackList \<times> 'a list) option" where
  "stackList_pop_n s 0 = Some (s, [])"
| "stackList_pop_n s (Suc n) =
     (case stackList_Pop s of
        Some (s', v, None) \<Rightarrow>
          (case stackList_pop_n s' n of
             None \<Rightarrow> None
           | Some (s'', vs) \<Rightarrow> Some (s'', v # vs))
      | _ \<Rightarrow> None)"

subsection \<open>What a stack holds\<close>

text \<open>
  The live part of an array stack is the slots \<open>[0, top]\<close>, bottom first; its fields are
  well formed when the buffer has \<open>StackMaxSize\<close> slots and \<open>top\<close> is within \<open>[-1, StackMaxSize)\<close>.
  The live part of a list stack is the values of its chain, top first; its fields are well
  formed when \<open>top + 1\<close> is the number of nodes of the chain.
\<close>

definition stackArray_contents :: "'a stackArray \<Rightarrow> 'a list" where
  "stackArray_contents s = take (nat (top_s s + 1)) (arr_s s)"

definition stackArray_wf :: "'a stackArray \<Rightarrow> bool" where
  "stackArray_wf s =
     (int (length (arr_s s)) = StackMaxSize \<and> - 1 \<le> top_s s \<and> top_s s < StackMaxSize)"

fun node_vals :: "'a node \<Rightarrow> 'a list" where
  "node_vals Nil_node = []"
| "node_vals (Node nxt v) = v # node_vals nxt"

definition stackList_wf :: "'a stackList \<Rightarrow> bool" where
  "stackList_wf s = (top_l s + 1 = int (length (node_vals (topNode s))))"

section \<open>Package linkedlist (src/linkedlist/linkedlist.go)\<close>

definition ErrInsertEmpty :: error where
  "ErrInsertEmpty = ''Cannot insert at end of empty list''"

definition ErrInvalidInsertPos :: error where
  "ErrInvalidInsertPos = ''Invalid position for insertion''"

definition ErrDeleteEmpty :: error where
  "ErrDeleteEmpty = ''Cannot delete from an empty list!''"

definition ErrInvalidDeletePos :: error where
  "ErrInvalidDeletePos = ''invalid position for deletion''"

subsection \<open>SinglyLinkedList\<close>

text \<open>
  A value of type \<open>*unidirectionalNode[T]\<close> is \<open>nil\<close> or a node with its \<open>Next\<close> pointer and
  its \<open>Val\<close>.  The list's methods create every node and keep exactly one pointer to it (the
  list's \<open>head\<close> or the \<open>Next\<close> field of its predecessor), so the chain is a value, and a
  method that walks to a node and assigns its \<open>Next\<close> field rebuilds the chain down to that node.
\<close>

datatype 'a unidirectionalNode = Nil_uni | UniNode "'a unidirectionalNode" 'a

record 'a SinglyLinkedList =
  head :: "'a unidirectionalNode"
  length_l :: int

definition NewSLL :: "'a SinglyLinkedList" where
  "NewSLL = \<lparr>head = Nil_uni, length_l = 0\<rparr>"

text \<open>
  \<open>Traverse\<close>: the visitor \<open>operation\<close> acts on a state of the caller, threaded through the
  calls in the order they are made.
\<close>

fun Traverse_loop :: "'a unidirectionalNode \<Rightarrow> ('a \<Rightarrow> 's \<Rightarrow> 's) \<Rightarrow> 's \<Rightarrow> 's" where
  "Traverse_loop Nil_uni operation st = st"
| "Traverse_loop (UniNode nxt v) operation st = Traverse_loop nxt operation (operation v st)"

definition Traverse :: "'a SinglyLinkedList \<Rightarrow> ('a \<Rightarrow> 's \<Rightarrow> 's) \<Rightarrow> 's \<Rightarrow> 's" where
  "Traverse l operation st = Traverse_loop (head l) operation st"

definition InsertAtBeginning ::
    "'a SinglyLinkedList \<Rightarrow> 'a \<Rightarrow> ('a SinglyLinkedList \<times> error option) option" where
  "InsertAtBeginning l val =
     (let newNode = UniNode (head l) val in
      Some (l\<lparr>head := newNode, length_l := length_l l + 1\<rparr>, None))"

text \<open>
  \<open>InsertAtEnd\<close>: \<open>current\<close> walks while \<open>current.Next != nil\<close>, then \<open>current.Next = newNode\<close>.
  The result is the chain from \<open>current\<close> on, after the assignment.
\<close>

fun InsertAtEnd_walk ::
    "'a unidirectionalNode \<Rightarrow> 'a unidirectionalNode \<Rightarrow> 'a unidirectionalNode option" where
  "InsertAtEnd_walk Nil_uni newNode = None"
| "InsertAtEnd_walk (UniNode nxt v) newNode =
     (if nxt \<noteq> Nil_uni then
        (case InsertAtEnd_walk nxt newNode of
           None \<Rightarrow> None
         | Some nxt' \<Rightarrow> Some (UniNode nxt' v))
      else Some (UniNode newNode v))"

definition InsertAtEnd ::
    "'a SinglyLinkedList \<Rightarrow> 'a \<Rightarrow> ('a SinglyLinkedList \<times> error option) option" where
  "InsertAtEnd l val =
     (if head l = Nil_uni then Some (l, Some ErrInsertEmpty)
      else let newNode = UniNode Nil_uni val in
           case InsertAtEnd_walk (head l) newNode of
             None \<Rightarrow> None
           | Some h \<Rightarrow> Some (l\<lparr>head := h, length_l := length_l l + 1\<rparr>, None))"

text \<open>
  \<open>InsertAtPosition\<close>: \<open>for i := 1; i < pos; i++ { current = current.Next }\<close>, then
  \<open>newNode.Next = current.Next; current.Next = newNode\<close>.  Reading \<open>current.Next\<close> of a nil
  \<open>current\<close> panics.
\<close>

fun InsertAtPosition_walk ::
    "'a unidirectionalNode \<Rightarrow> int \<Rightarrow> int \<Rightarrow> 'a \<Rightarrow> 'a unidirectionalNode option" where
  "InsertAtPosition_walk Nil_uni i pos val = None"
| "InsertAtPosition_walk (UniNode nxt v) i pos val =
     (if i < pos then
        (case InsertAtPosition_walk nxt (i + 1) pos val of
           None \<Rightarrow> None
         | Some nxt' \<Rightarrow> Some (UniNode nxt' v))
      else Some (UniNode (UniNode nxt val) v))"

definition InsertAtPosition ::
    "'a SinglyLinkedList \<Rightarrow> 'a \<Rightarrow> int \<Rightarrow> ('a SinglyLinkedList \<times> error option) option" where
  "InsertAtPosition l val pos =
     (if pos < 0 \<or> pos > length_l l then Some (l, Some ErrInvalidInsertPos)
      else if pos = 0 then InsertAtBeginning l val
      else if pos = length_l l - 1 then InsertAtEnd l val
      else case InsertAtPosition_walk (head l) 1 pos val of
             None \<Rightarrow> None
           | Some h \<Rightarrow> Some (l\<lparr>head := h, length_l := length_l l + 1\<rparr>, None))"

definition DeleteFromBeginning ::
    "'a::zero SinglyLinkedList \<Rightarrow> ('a SinglyLinkedList \<times> 'a \<times> error option) option" where
  "DeleteFromBeginning l =
     (if length_l l = 0 then Some (l, 0, Some ErrDeleteEmpty)
      else case head l of
             Nil_uni \<Rightarrow> None
           | UniNode nxt val \<Rightarrow> Some (l\<lparr>head := nxt, length_l := length_l l - 1\<rparr>, val, None))"

text \<open>
  \<open>DeleteFromEnd\<close>: \<open>currNext\<close> is \<open>curr.Next\<close> throughout; the loop runs while
  \<open>curr.Next != nil && currNext.Next != nil\<close>, then \<open>curr.Next = nil\<close> and \<open>currNext.Val\<close> is
  returned, which panics when \<open>currNext\<close> is nil.  The result is the chain from \<open>curr\<close> on and
  the value returned.
\<close>

fun DeleteFromEnd_walk :: "'a unidirectionalNode \<Rightarrow> ('a unidirectionalNode \<times> 'a) option" where
  "DeleteFromEnd_walk Nil_uni = None"
| "DeleteFromEnd_walk (UniNode Nil_uni v) = None"
| "DeleteFromEnd_walk (UniNode (UniNode nxt2 v2) v) =
     (if nxt2 \<noteq> Nil_uni then
        (case DeleteFromEnd_walk (UniNode nxt2 v2) of
           None \<Rightarrow> None
         | Some (c, r) \<Rightarrow> Some (UniNode c v, r))
      else Some (UniNode Nil_uni v, v2))"

definition DeleteFromEnd ::
    "'a::zero SinglyLinkedList \<Rightarrow> ('a SinglyLinkedList \<times> 'a \<times> error option) option" where
  "DeleteFromEnd l =
     (if length_l l = 0 then Some (l, 0, Some ErrDeleteEmpty)
      else if length_l l = 1 then DeleteFromBeginning l
      else case DeleteFromEnd_walk (head l) of
             None \<Rightarrow> None
           | Some (h, r) \<Rightarrow> Some (l\<lparr>head := h, length_l := length_l l - 1\<rparr>, r, None))"

text \<open>
  \<open>DeleteAtPosition\<close>: \<open>for i := 0; i < pos-1; i++ { curr = curr.Next }\<close>, then
  \<open>val := curr.Next.Val; curr.Next = curr.Next.Next\<close>.
\<close>

fun DeleteAtPosition_walk ::
    "'a unidirectionalNode \<Rightarrow> int \<Rightarrow> int \<Rightarrow> ('a unidirectionalNode \<times> 'a) option" where
  "DeleteAtPosition_walk Nil_uni i pos = None"
| "DeleteAtPosition_walk (UniNode nxt v) i pos =
     (if i < pos - 1 then
        (case DeleteAtPosition_walk nxt (i + 1) pos of
           None \<Rightarrow> None
         | Some (c, r) \<Rightarrow> Some (UniNode c v, r))
      else (case nxt of
              Nil_uni \<Rightarrow> None
            | UniNode nxt2 v2 \<Rightarrow> Some (UniNode nxt2 v, v2)))"

definition DeleteAtPosition ::
    "'a::zero SinglyLinkedList \<Rightarrow> int \<Rightarrow> ('a SinglyLinkedList \<times> 'a \<times> error option) option" where
  "DeleteAtPosition l pos =
     (if pos < 0 \<or> pos \<ge> length_l l then Some (l, 0, Some ErrInvalidDeletePos)
      else if pos = 0 then DeleteFromBeginning l
      else if pos = length_l l - 1 then DeleteFromEnd l
      else case DeleteAtPosition_walk (head l) 0 pos of
             None \<Rightarrow> None
           | Some (h, val) \<Rightarrow> Some (l\<lparr>head := h, length_l := length_l l - 1\<rparr>, val, None))"

text \<open>\<open>Search\<close> returns the flag and the pointer to the matching node (\<open>nil\<close> when none).\<close>

fun Search_loop :: "'a unidirectionalNode \<Rightarrow> 'a \<Rightarrow> bool \<times> 'a unidirectionalNode" where
  "Search_loop Nil_uni element = (False, Nil_uni)"
| "Search_loop (UniNode nxt v) element =
     (if v = element then (True, UniNode nxt v) else Search_loop nxt element)"

definition Search :: "'a SinglyLinkedList \<Rightarrow> 'a \<Rightarrow> bool \<times> 'a unidirectionalNode" where
  "Search l element = Search_loop (head l) element"

subsection \<open>Observations on a singly linked list\<close>

text \<open>The number of nodes reachable from a pointer by following \<open>Next\<close>.\<close>

fun reachable :: "'a unidirectionalNode \<Rightarrow> nat" where
  "reachable Nil_uni = 0"
| "reachable (UniNode nxt v) = Suc (reachable nxt)"

text \<open>The values in traversal order: what a visitor that records its argument sees.\<close>

definition traversal :: "'a SinglyLinkedList \<Rightarrow> 'a list" where
  "traversal l = Traverse l (\<lambda>v seen. seen @ [v]) []"

text \<open>
  Sequences of operations.  \<open>sll_step\<close> performs one operation and returns the new list with
  the error the operation returned; \<open>sll_run\<close> performs a sequence and counts the insertions
  and the deletions that returned a nil error.
\<close>

datatype 'a sll_op =
    OpInsertAtBeginning 'a
  | OpInsertAtEnd 'a
  | OpInsertAtPosition 'a int
  | OpDeleteFromBeginning
  | OpDeleteFromEnd
  | OpDeleteAtPosition int
  | OpSearch 'a
  | OpTraverse

fun is_insert :: "'a sll_op \<Rightarrow> bool" where
  "is_insert (OpInsertAtBeginning v) = True"
| "is_insert (OpInsertAtEnd v) = True"
| "is_insert (OpInsertAtPosition v pos) = True"
| "is_insert _ = False"

fun is_delete :: "'a sll_op \<Rightarrow> bool" where
  "is_delete OpDeleteFromBeginning = True"
| "is_delete OpDeleteFromEnd = True"
| "is_delete (OpDeleteAtPosition pos) = True"
| "is_delete _ = False"

fun sll_step ::
    "'a::zero SinglyLinkedList \<Rightarrow> 'a sll_op \<Rightarrow> ('a SinglyLinkedList \<times> error option) option" where
  "sll_step l (OpInsertAtBeginning v) = InsertAtBeginning l v"
| "sll_step l (OpInsertAtEnd v) = InsertAtEnd l v"
| "sll_step l (OpInsertAtPosition v pos) = InsertAtPosition l v pos"
| "sll_step l OpDeleteFromBeginning = map_option (\<lambda>(l', val, e). (l', e)) (DeleteFromBeginning l)"
| "sll_step l OpDeleteFromEnd = map_option (\<lambda>(l', val, e). (l', e)) (DeleteFromEnd l)"
| "sll_step l (OpDeleteAtPosition pos) = map_option (\<lambda>(l', val, e). (l', e)) (DeleteAtPosition l pos)"
| "sll_step l (OpSearch v) = (case Search l v of (found, n) \<Rightarrow> Some (l, None))"
| "sll_step l OpTraverse = (case traversal l of seen \<Rightarrow> Some (l, None))"

fun sll_run ::
    "'a::zero SinglyLinkedList \<Rightarrow> int \<Rightarrow> int \<Rightarrow> 'a sll_op list \<Rightarrow> ('a SinglyLinkedList \<times> int \<times> int) option" where
  "sll_run l ins del [] = Some (l, ins, del)"
| "sll_run l ins del (x # xs) =
     (case sll_step l x of
        None \<Rightarrow> None
      | Some (l', Some e) \<Rightarrow> sll_run l' ins del xs
      | Some (l', None) \<Rightarrow>
          sll_run l' (if is_insert x then ins + 1 else ins) (if is_delete x then del + 1 else del) xs)"

text \<open>
  The values of a chain in order, the well-formedness of the fields of a list (\<open>length\<close> is
  the number of nodes reachable from \<open>head\<close>), and the list obtained from the empty one by
  \<open>InsertAtBeginning(3)\<close>, \<open>InsertAtBeginning(2)\<close>, \<open>InsertAtBeginning(1)\<close>.
\<close>

fun uni_vals :: "'a unidirectionalNode \<Rightarrow> 'a list" where
  "uni_vals Nil_uni = []"
| "uni_vals (UniNode nxt v) = v # uni_vals nxt"

definition sll_wf :: "'a SinglyLinkedList \<Rightarrow> bool" where
  "sll_wf l = (length_l l = int (reachable (head l)))"

definition sll_example :: "int SinglyLinkedList" where
  "sll_example = \<lparr>head = UniNode (UniNode (UniNode Nil_uni 3) 2) 1, length_l = 3\<rparr>"

subsection \<open>DoublyLinkedList\<close>

text \<open>
  The nodes of a doubly linked list point at each other, so they live in a store: a pointer
  is \<open>None\<close> (nil) or \<open>Some\<close> address, the address of a node is its index in the list
  \<open>nodes_d\<close> of the nodes allocated so far, and \<open>&bidirectionalNode{...}\<close> allocates at the
  next free index.
\<close>

record 'a bidirectionalNode =
  Prev :: "nat option"
  Next :: "nat option"
  Val :: 'a

record 'a DoublyLinkedList =
  nodes_d :: "'a bidirectionalNode list"
  head_d :: "nat option"
  tail_d :: "nat option"
  length_d :: int

definition NewDLL :: "'a DoublyLinkedList" where
  "NewDLL = \<lparr>nodes_d = [], head_d = None, tail_d = None, length_d = 0\<rparr>"

definition DLL_InsertAtBeginning ::
    "'a DoublyLinkedList \<Rightarrow> 'a \<Rightarrow> ('a DoublyLinkedList \<times> error option) option" where
  "DLL_InsertAtBeginning l val =
     (let newNode = length (nodes_d l);
          l1 = l\<lparr>nodes_d := nodes_d l @ [\<lparr>Prev = None, Next = head_d l, Val = val\<rparr>]\<rparr>;
          l2 = l1\<lparr>head_d := Some newNode\<rparr>;
          l3 = (if length_d l2 = 0 then l2\<lparr>tail_d := Some newNode\<rparr> else l2)
      in Some (l3\<lparr>length_d := length_d l3 + 1\<rparr>, None))"

fun DLL_insert_all :: "'a DoublyLinkedList \<Rightarrow> 'a list \<Rightarrow> 'a DoublyLinkedList option" where
  "DLL_insert_all l [] = Some l"
| "DLL_insert_all l (v # vs) =
     (case DLL_InsertAtBeginning l v of
        Some (l', None) \<Rightarrow> DLL_insert_all l' vs
      | _ \<Rightarrow> None)"

text \<open>
  The consistency invariant of the data model, clause by clause.  \<open>dll_chain\<close> lists the
  addresses met from a pointer by following \<open>Next\<close>, at most as many as the store has nodes.
\<close>

fun dll_chain :: "'a bidirectionalNode list \<Rightarrow> nat \<Rightarrow> nat option \<Rightarrow> nat list" where
  "dll_chain st 0 p = []"
| "dll_chain st (Suc n) None = []"
| "dll_chain st (Suc n) (Some a) = (if a < length st then a # dll_chain st n (Next (st ! a)) else [])"

definition dll_links_consistent :: "'a DoublyLinkedList \<Rightarrow> bool" where
  "dll_links_consistent l =
     list_all (\<lambda>a. case Next (nodes_d l ! a) of
                     None \<Rightarrow> True
                   | Some b \<Rightarrow> b < length (nodes_d l) \<and> Prev (nodes_d l ! b) = Some a)
       (dll_chain (nodes_d l) (length (nodes_d l)) (head_d l))"

definition dll_ends_consistent :: "'a DoublyLinkedList \<Rightarrow> bool" where
  "dll_ends_consistent l =
     ((case head_d l of None \<Rightarrow> True | Some h \<Rightarrow> h < length (nodes_d l) \<and> Prev (nodes_d l ! h) = None) \<and>
      (case tail_d l of None \<Rightarrow> True | Some t \<Rightarrow> t < length (nodes_d l) \<and> Next (nodes_d l ! t) = None))"

definition dll_length_consistent :: "'a DoublyLinkedList \<Rightarrow> bool" where
  "dll_length_consistent l =
     ((if length_d l = 1 then head_d l = tail_d l else True) \<and>
      (if length_d l = 0 then head_d l = None \<and> tail_d l = None else True))"

definition dll_invariant :: "'a DoublyLinkedList \<Rightarrow> bool" where
  "dll_invariant l = (dll_links_consistent l \<and> dll_ends_consistent l \<and> dll_length_consistent l)"

section \<open>Properties of the bounded array\<close>

text \<open>
  C7.  For every array and every index outside \<open>[0, size]\<close> for \<open>InsertElement\<close>, or outside
  \<open>[0, size)\<close> for \<open>Get\<close>, \<open>Set\<close> and \<open>RemoveAtIndex\<close>, the operation returns the error
  "Index out of bounds" and the array it leaves behind is the array it was given: same buffer,
  same size.
\<close>

theorem out_of_bounds_leaves_array_unmutated:
  fixes a :: "'a::zero array"
  shows "(index < 0 \<or> index > size_a a \<longrightarrow>
            InsertElement a element index = Some (a, Some ErrIndexOutOfBounds)) \<and>
         (index < 0 \<or> index \<ge> size_a a \<longrightarrow>
            Get a index = Some (a, 0, Some ErrIndexOutOfBounds) \<and>
            Set_a a index val = Some (a, Some ErrIndexOutOfBounds) \<and>
            RemoveAtIndex a index = Some (a, Some ErrIndexOutOfBounds))"
  by (simp add: InsertElement_def Get_def Set_a_def RemoveAtIndex_def)

theorem out_of_bounds_leaves_array_unmutated_witness:
  "(4 < 0 \<or> 4 > size_a \<lparr>arr = [5, 6, 7] @ replicate 97 (0::int), size_a = 3\<rparr>) \<and>
   InsertElement \<lparr>arr = [5, 6, 7] @ replicate 97 (0::int), size_a = 3\<rparr> 9 4 =
     Some (\<lparr>arr = [5, 6, 7] @ replicate 97 0, size_a = 3\<rparr>, Some ErrIndexOutOfBounds) \<and>
   Get \<lparr>arr = [5, 6, 7] @ replicate 97 (0::int), size_a = 3\<rparr> 4 =
     Some (\<lparr>arr = [5, 6, 7] @ replicate 97 0, size_a = 3\<rparr>, 0, Some ErrIndexOutOfBounds) \<and>
   Set_a \<lparr>arr = [5, 6, 7] @ replicate 97 (0::int), size_a = 3\<rparr> 4 9 =
     Some (\<lparr>arr = [5, 6, 7] @ replicate 97 0, size_a = 3\<rparr>, Some ErrIndexOutOfBounds) \<and>
   RemoveAtIndex \<lparr>arr = [5, 6, 7] @ replicate 97 (0::int), size_a = 3\<rparr> 4 =
     Some (\<lparr>arr = [5, 6, 7] @ replicate 97 0, size_a = 3\<rparr>, Some ErrIndexOutOfBounds)"
  using out_of_bounds_leaves_array_unmutated
          [of 4 "\<lparr>arr = [5, 6, 7] @ replicate 97 (0::int), size_a = 3\<rparr>" 9 9]
  by simp

text \<open>
  C8.  On the empty array \<open>RemoveAtIndex\<close> returns "Index out of bounds" whatever the index:
  the bounds test comes first and, with size 0, rejects every index, so the test for the
  empty array that follows it is never reached.  The two errors are different values.
\<close>

theorem RemoveAtIndex_empty_reports_bounds:
  "RemoveAtIndex (New::int array) index = Some (New, Some ErrIndexOutOfBounds) \<and>
   ErrIndexOutOfBounds \<noteq> ErrArrayEmpty"
  by (auto simp add: RemoveAtIndex_def New_def ErrIndexOutOfBounds_def ErrArrayEmpty_def)

text \<open>
  C5.  \<open>PrintAll\<close> on the empty array writes the opening bracket and then reads
  \<open>arr.arr[arr.size-1]\<close>, that is index \<open>-1\<close>: the call panics.
\<close>

theorem PrintAll_empty_panics:
  "PrintAll (New::int array) [] = ([Lit ''[ ''], False)"
  by (simp add: PrintAll_def New_def rd_def ArrayMaxSize_def)

text \<open>
  C1.  With a receiver that is full (100 pushes) and an argument holding one element, the
  second loop of \<open>Merge\<close> stores at index 100 before it tests whether the result is full: the
  call panics, and returns neither a result nor an error.
\<close>

theorem Merge_full_receiver_panics:
  "\<exists>a b. PushElement_all (New::int array) (map int [0..<100]) = Some a \<and>
         PushElement_all (New::int array) [0] = Some b \<and>
         size_a a = 100 \<and> size_a b = 1 \<and> Merge a b = None"
proof -
  let ?a = "\<lparr>arr = map int [0..<100], size_a = 100\<rparr>"
  let ?b = "\<lparr>arr = replicate 100 (0::int), size_a = 1\<rparr>"
  have 1: "PushElement_all (New::int array) (map int [0..<100]) = Some ?a" by code_simp
  have 2: "PushElement_all (New::int array) [0] = Some ?b" by code_simp
  have 3: "Merge ?a ?b = None" by code_simp
  show ?thesis using 1 2 3 by simp
qed

text \<open>
  Away from that case \<open>Merge\<close> does what its comment says: when the receiver is not full, or
  the argument is empty, it returns an array whose live elements are those of the receiver
  followed by those of the argument, cut at \<open>ArrayMaxSize\<close>, with the error exactly when the
  two sizes add up to more than \<open>ArrayMaxSize\<close>.
\<close>

declare Merge_copy.simps [simp del] Merge_append.simps [simp del]

lemma Merge_copy_ok:
  "0 \<le> i \<Longrightarrow> size_a a \<le> int (length (arr a)) \<Longrightarrow> length (arr res) = length (arr a) \<Longrightarrow>
   \<exists>res'. Merge_copy a res i = Some res' \<and>
          size_a res' = size_a res + (if i < size_a a then size_a a - i else 0) \<and>
          length (arr res') = length (arr res) \<and>
          (\<forall>j < length (arr res). arr res' ! j =
             (if i \<le> int j \<and> int j < size_a a then arr a ! j else arr res ! j))"
proof (induction a res i rule: Merge_copy.induct)
  case (1 a res i)
  show ?case
  proof (cases "i < size_a a")
    case False
    then show ?thesis by (subst Merge_copy.simps) auto
  next
    case True
    let ?v = "arr a ! nat i"
    let ?xs = "(arr res)[nat i := ?v]"
    let ?res1 = "res\<lparr>arr := ?xs, size_a := size_a res + 1\<rparr>"
    have r: "rd (arr a) i = Some ?v" using True 1(2,3) by (simp add: rd_def)
    have w: "wr (arr res) i ?v = Some ?xs" using True 1(2,3,4) by (simp add: wr_def)
    have "0 \<le> i + 1" using 1(2) by simp
    moreover have "length (arr ?res1) = length (arr a)" using 1(4) by simp
    ultimately obtain res' where IH:
      "Merge_copy a ?res1 (i + 1) = Some res'"
      "size_a res' = size_a ?res1 + (if i + 1 < size_a a then size_a a - (i + 1) else 0)"
      "length (arr res') = length (arr ?res1)"
      "\<forall>j < length (arr ?res1). arr res' ! j =
             (if i + 1 \<le> int j \<and> int j < size_a a then arr a ! j else arr ?res1 ! j)"
      using 1(1)[OF True r w] 1(3) by blast
    have step: "Merge_copy a res i = Some res'"
      using True r w IH(1) by (subst Merge_copy.simps) simp
    have sz: "size_a res' = size_a res + (size_a a - i)" using IH(2) True by auto
    have nth: "arr res' ! j = (if i \<le> int j \<and> int j < size_a a then arr a ! j else arr res ! j)"
      if "j < length (arr res)" for j
    proof (cases "int j = i")
      case True
      then have "j = nat i" by simp
      with IH(4) that True \<open>i < size_a a\<close> show ?thesis by simp
    next
      case False
      then have "j \<noteq> nat i" using 1(2) by auto
      with IH(4) that False show ?thesis by auto
    qed
    from step sz nth IH(3) True show ?thesis by simp
  qed
qed

lemma Merge_append_ok:
  "0 \<le> i \<Longrightarrow> i \<le> size_a b \<Longrightarrow> size_a b \<le> int (length (arr b)) \<Longrightarrow> 0 \<le> size_a a \<Longrightarrow>
   int (length (arr res)) = ArrayMaxSize \<Longrightarrow> size_a res = size_a a + i \<Longrightarrow>
   size_a a + i \<le> ArrayMaxSize \<Longrightarrow>
   (i < size_a b \<longrightarrow> size_a a + i < ArrayMaxSize) \<Longrightarrow>
   \<exists>res'. Merge_append a b res i = Some res' \<and>
          size_a res' = min (size_a a + size_a b) ArrayMaxSize \<and>
          length (arr res') = length (arr res) \<and>
          (\<forall>j < length (arr res). arr res' ! j =
             (if size_a a + i \<le> int j \<and> int j < min (size_a a + size_a b) ArrayMaxSize
              then arr b ! (j - nat (size_a a)) else arr res ! j))"
proof (induction a b res i rule: Merge_append.induct)
  case (1 a b res i)
  show ?case
  proof (cases "i < size_a b")
    case False
    with 1(3) have "i = size_a b" by simp
    with False 1 show ?thesis by (subst Merge_append.simps) auto
  next
    case True
    let ?v = "arr b ! nat i"
    let ?xs = "(arr res)[nat (size_a a + i) := ?v]"
    let ?res1 = "res\<lparr>arr := ?xs, size_a := size_a res + 1\<rparr>"
    have lt: "size_a a + i < ArrayMaxSize" using True 1 by simp
    have r: "rd (arr b) i = Some ?v" using True 1(2,4) by (simp add: rd_def)
    have w: "wr (arr res) (size_a a + i) ?v = Some ?xs"
      using lt 1(2,5,6) by (simp add: wr_def)
    show ?thesis
    proof (cases "size_a ?res1 = ArrayMaxSize")
      case full: True
      have step: "Merge_append a b res i = Some ?res1"
        using True r w full by (subst Merge_append.simps) (simp add: Let_def)
      have m: "min (size_a a + size_a b) ArrayMaxSize = ArrayMaxSize"
        using full True 1(7) by simp
      have nth: "arr ?res1 ! j =
             (if size_a a + i \<le> int j \<and> int j < min (size_a a + size_a b) ArrayMaxSize
              then arr b ! (j - nat (size_a a)) else arr res ! j)"
        if "j < length (arr res)" for j
      proof (cases "int j = size_a a + i")
        case True
        then have "j = nat (size_a a + i)" by simp
        moreover from this have "j - nat (size_a a) = nat i" using 1(2,5) by simp
        ultimately show ?thesis using that True m lt by simp
      next
        case False
        then have ne: "j \<noteq> nat (size_a a + i)" using 1(2,5) by auto
        have "\<not> (size_a a + i \<le> int j \<and> int j < ArrayMaxSize)"
          using False full 1(7) by simp
        with ne m show ?thesis by auto
      qed
      from step full m nth show ?thesis by simp
    next
      case notfull: False
      have lt1: "size_a a + (i + 1) < ArrayMaxSize" using notfull lt 1(7) by simp
      have "\<exists>res'. Merge_append a b ?res1 (i + 1) = Some res' \<and>
          size_a res' = min (size_a a + size_a b) ArrayMaxSize \<and>
          length (arr res') = length (arr ?res1) \<and>
          (\<forall>j < length (arr ?res1). arr res' ! j =
             (if size_a a + (i + 1) \<le> int j \<and> int j < min (size_a a + size_a b) ArrayMaxSize
              then arr b ! (j - nat (size_a a)) else arr ?res1 ! j))"
        apply (rule 1(1)[OF True r w refl notfull])
        using 1(2-7) True lt1 by simp_all
      then obtain res' where IH:
        "Merge_append a b ?res1 (i + 1) = Some res'"
        "size_a res' = min (size_a a + size_a b) ArrayMaxSize"
        "length (arr res') = length (arr ?res1)"
        "\<forall>j < length (arr ?res1). arr res' ! j =
             (if size_a a + (i + 1) \<le> int j \<and> int j < min (size_a a + size_a b) ArrayMaxSize
              then arr b ! (j - nat (size_a a)) else arr ?res1 ! j)"
        by blast
      have step: "Merge_append a b res i = Some res'"
        using True r w notfull IH(1) by (subst Merge_append.simps) (simp add: Let_def)
      have nth: "arr res' ! j =
             (if size_a a + i \<le> int j \<and> int j < min (size_a a + size_a b) ArrayMaxSize
              then arr b ! (j - nat (size_a a)) else arr res ! j)"
        if "j < length (arr res)" for j
      proof (cases "int j = size_a a + i")
        case True
        then have "j = nat (size_a a + i)" by simp
        moreover from this have "j - nat (size_a a) = nat i" using 1(2,5) by simp
        ultimately show ?thesis using that True lt IH(4) \<open>i < size_a b\<close> by simp
      next
        case False
        then have ne: "j \<noteq> nat (size_a a + i)" using 1(2,5) by auto
        with IH(4) that False show ?thesis by auto
      qed
      from step IH(2,3) nth show ?thesis by simp
    qed
  qed
qed


lemma length_take_take_append:
  "n \<le> length xs \<Longrightarrow> m \<le> length ys \<Longrightarrow>
   length (take k (take n xs @ take m ys)) = min (n + m) k"
proof -
  assume "n \<le> length xs" "m \<le> length ys"
  then have "length (take n xs) = n" "length (take m ys) = m" by simp_all
  then have "length (take n xs @ take m ys) = n + m" by (simp only: length_append)
  then show ?thesis by (simp only: length_take)
qed

lemma Merge_within_capacity:
  fixes a b :: "'a::zero array"
  assumes "array_wf a" "array_wf b" "size_a a < ArrayMaxSize \<or> size_a b = 0"
  shows "\<exists>res. Merge a b = Some (res, if size_a a + size_a b > ArrayMaxSize
                                       then Some ErrCannotFit else None) \<and>
               array_wf res \<and>
               size_a res = min (size_a a + size_a b) ArrayMaxSize \<and>
               live res = take (nat ArrayMaxSize) (live a @ live b)"
proof -
  let ?n = "nat (size_a a)" and ?m = "nat (size_a b)"
  have la: "int (length (arr a)) = ArrayMaxSize" "0 \<le> size_a a" "size_a a \<le> ArrayMaxSize"
    and lb: "int (length (arr b)) = ArrayMaxSize" "0 \<le> size_a b" "size_a b \<le> ArrayMaxSize"
    using assms(1,2) by (simp_all add: array_wf_def)
  have lN: "length (arr (New :: 'a array)) = length (arr a)" "size_a (New :: 'a array) = 0"
    using la(1) by (simp_all add: New_def)
  have "\<exists>res'. Merge_copy a (New :: 'a array) 0 = Some res' \<and>
          size_a res' = size_a (New :: 'a array) + (if 0 < size_a a then size_a a - 0 else 0) \<and>
          length (arr res') = length (arr (New :: 'a array)) \<and>
          (\<forall>j < length (arr (New :: 'a array)). arr res' ! j =
             (if 0 \<le> int j \<and> int j < size_a a then arr a ! j else arr (New :: 'a array) ! j))"
    by (rule Merge_copy_ok) (use la lN in simp_all)
  then obtain res1 where c0:
    "Merge_copy a (New :: 'a array) 0 = Some res1"
    "size_a res1 = size_a (New :: 'a array) + (if 0 < size_a a then size_a a - 0 else 0)"
    "length (arr res1) = length (arr (New :: 'a array))"
    "\<forall>j < length (arr (New :: 'a array)). arr res1 ! j =
        (if 0 \<le> int j \<and> int j < size_a a then arr a ! j else arr (New :: 'a array) ! j)"
    by blast
  have c: "Merge_copy a New 0 = Some res1" "size_a res1 = size_a a"
    "length (arr res1) = length (arr a)"
    using c0(1-3) la lN by simp_all
  have c4: "arr res1 ! j = arr a ! j" if "int j < size_a a" for j
    using c0(4) that la lN by simp
  have pre: "0 < size_a b \<longrightarrow> size_a a + 0 < ArrayMaxSize" using assms(3) by auto
  have "\<exists>res'. Merge_append a b res1 0 = Some res' \<and>
          size_a res' = min (size_a a + size_a b) ArrayMaxSize \<and>
          length (arr res') = length (arr res1) \<and>
          (\<forall>j < length (arr res1). arr res' ! j =
             (if size_a a + 0 \<le> int j \<and> int j < min (size_a a + size_a b) ArrayMaxSize
              then arr b ! (j - nat (size_a a)) else arr res1 ! j))"
    by (rule Merge_append_ok) (use la lb c pre in simp_all)
  then obtain res2 where d0:
    "Merge_append a b res1 0 = Some res2"
    "size_a res2 = min (size_a a + size_a b) ArrayMaxSize"
    "length (arr res2) = length (arr res1)"
    "\<forall>j < length (arr res1). arr res2 ! j =
        (if size_a a + 0 \<le> int j \<and> int j < min (size_a a + size_a b) ArrayMaxSize
         then arr b ! (j - nat (size_a a)) else arr res1 ! j)"
    by blast
  note d = d0(1-3)
  have d4: "arr res2 ! j =
        (if size_a a \<le> int j \<and> int j < min (size_a a + size_a b) ArrayMaxSize
         then arr b ! (j - ?n) else arr res1 ! j)" if "j < length (arr a)" for j
    using d0(4) that c(3) by simp
  have m: "Merge a b = Some (res2, if size_a a + size_a b > ArrayMaxSize
                                   then Some ErrCannotFit else None)"
    using c(1) d(1) by (simp add: Merge_def)
  have wf: "array_wf res2"
    using d(2,3) c(3) la lb by (simp add: array_wf_def)
  define n where "n = nat (size_a a)"
  define k where "k = nat (min (size_a a + size_a b) ArrayMaxSize)"
  have n: "?n = n" by (simp add: n_def)
  have la': "length (arr a) = nat ArrayMaxSize" "n \<le> length (arr a)"
    and lb': "?m \<le> length (arr b)"
    and k: "k = min (n + ?m) (nat ArrayMaxSize)" "k \<le> length (arr a)"
    unfolding n_def k_def using la lb by linarith+
  have lhs: "length (take k (arr res2)) = k"
    using k(2) d(3) c(3) by simp
  have rhs: "length (take (nat ArrayMaxSize) (take n (arr a) @ take ?m (arr b))) = k"
    unfolding k(1) using la'(2) lb' by (rule length_take_take_append)
  have "take k (arr res2) = take (nat ArrayMaxSize) (take n (arr a) @ take ?m (arr b))"
  proof (rule nth_equalityI)
    show "length (take k (arr res2)) =
          length (take (nat ArrayMaxSize) (take n (arr a) @ take ?m (arr b)))"
      using lhs rhs by simp
  next
    fix j assume "j < length (take k (arr res2))"
    with lhs have j: "j < k" by simp
    with k(2) have ja: "j < length (arr a)" by simp
    from j have j2: "int j < min (size_a a + size_a b) ArrayMaxSize"
      unfolding k_def by linarith
    from j k(1) have j3: "j < nat ArrayMaxSize" "j < n + ?m" by simp_all
    have l: "take k (arr res2) ! j = arr res2 ! j" using j by simp
    have r: "take (nat ArrayMaxSize) (take n (arr a) @ take ?m (arr b)) ! j =
             (take n (arr a) @ take ?m (arr b)) ! j" using j3(1) by (rule nth_take)
    show "take k (arr res2) ! j =
          take (nat ArrayMaxSize) (take n (arr a) @ take ?m (arr b)) ! j"
    proof (cases "j < n")
      case True
      then have "int j < size_a a" unfolding n_def by linarith
      with d4[OF ja] c4[of j] have "arr res2 ! j = arr a ! j" by simp
      moreover have "(take n (arr a) @ take ?m (arr b)) ! j = arr a ! j"
        using True la'(2) by (simp add: nth_append)
      ultimately show ?thesis using l r by simp
    next
      case False
      then have "size_a a \<le> int j" unfolding n_def by linarith
      with d4[OF ja] j2 n have "arr res2 ! j = arr b ! (j - n)" by simp
      moreover have "j - n < ?m" using False j3(2) by linarith
      then have "(take n (arr a) @ take ?m (arr b)) ! j = arr b ! (j - n)"
        using False la'(2) by (simp add: nth_append)
      ultimately show ?thesis using l r by simp
    qed
  qed
  then have lv: "live res2 = take (nat ArrayMaxSize) (live a @ live b)"
    using d(2) unfolding live_def k_def n_def by simp
  from m wf d(2) lv show ?thesis by blast
qed

section \<open>Properties of the doubly linked list\<close>

text \<open>
  C2.  Two insertions at the beginning of the empty doubly linked list give a list whose head
  (address 1) has the first node (address 0) as its \<open>Next\<close>, while the \<open>Prev\<close> of that first
  node is still nil: \<open>InsertAtBeginning\<close> never assigns the \<open>Prev\<close> of the old head.  The
  consistency invariant does not hold of this list.
\<close>

theorem DLL_second_insert_breaks_links:
  "\<exists>l. DLL_insert_all NewDLL [1, 2::int] = Some l \<and>
       head_d l = Some 1 \<and> Next (nodes_d l ! 1) = Some 0 \<and> Prev (nodes_d l ! 0) = None \<and>
       \<not> dll_invariant l"
  by (simp add: NewDLL_def DLL_InsertAtBeginning_def dll_invariant_def dll_links_consistent_def)

section \<open>Properties of the stacks\<close>

lemma NewArray_wf: "stackArray_wf NewArray" "stackArray_contents NewArray = []"
  by (simp_all add: stackArray_wf_def NewArray_def StackMaxSize_def stackArray_contents_def)

lemma stackArray_Push_ok:
  assumes "stackArray_wf s" "top_s s < StackMaxSize - 1"
  shows "\<exists>s'. stackArray_Push s x = Some (s', None) \<and> stackArray_wf s' \<and>
              top_s s' = top_s s + 1 \<and> stackArray_contents s' = stackArray_contents s @ [x]"
proof -
  let ?s' = "s\<lparr>arr_s := (arr_s s)[nat (top_s s + 1) := x], top_s := top_s s + 1\<rparr>"
  have 1: "stackArray_Push s x = Some (?s', None)"
    using assms by (simp add: stackArray_Push_def stackArray_wf_def wr_def)
  have 2: "stackArray_wf ?s'"
    using assms by (simp add: stackArray_wf_def)
  have "nat (top_s s + 1) < length (arr_s s)"
    using assms by (simp add: stackArray_wf_def) linarith
  moreover have "nat (top_s s + 1 + 1) = Suc (nat (top_s s + 1))"
    using assms unfolding stackArray_wf_def by linarith
  ultimately have 3: "stackArray_contents ?s' = stackArray_contents s @ [x]"
    by (simp add: stackArray_contents_def take_Suc_conv_app_nth)
  show ?thesis using 1 2 3 by simp
qed

lemma stackArray_push_all_ok:
  "stackArray_wf s \<Longrightarrow> top_s s + int (length xs) < StackMaxSize \<Longrightarrow>
   \<exists>s'. stackArray_push_all s xs = Some s' \<and> stackArray_wf s' \<and>
        stackArray_contents s' = stackArray_contents s @ xs"
proof (induction xs arbitrary: s)
  case Nil
  then show ?case by simp
next
  case (Cons x xs)
  from Cons.prems have "top_s s < StackMaxSize - 1" by simp
  from stackArray_Push_ok[OF Cons.prems(1) this, of x]
  obtain s1 where s1: "stackArray_Push s x = Some (s1, None)" "stackArray_wf s1"
     "top_s s1 = top_s s + 1" "stackArray_contents s1 = stackArray_contents s @ [x]" by blast
  from Cons.prems s1 have "top_s s1 + int (length xs) < StackMaxSize" by simp
  from Cons.IH[OF s1(2) this] s1 show ?case by auto
qed

lemma stackArray_Pop_ok:
  assumes "stackArray_wf s" "stackArray_contents s = cs @ [c]"
  shows "\<exists>s'. stackArray_Pop s = Some (s', c, None) \<and> stackArray_wf s' \<and>
              stackArray_contents s' = cs"
proof -
  from assms have len: "length (cs @ [c]) = nat (top_s s + 1)"
    by (metis stackArray_contents_def stackArray_wf_def length_take min.absorb2 nat_int nat_mono
        add.commute zle_add1_eq_le zless_imp_add1_zle)
  then have top: "top_s s = int (length cs)" using assms(1) by (simp add: stackArray_wf_def)
  let ?s' = "s\<lparr>top_s := top_s s - 1\<rparr>"
  have lt: "length cs < length (arr_s s)"
    using assms(1) top by (simp add: stackArray_wf_def)
  have "arr_s s ! length cs = (take (nat (top_s s + 1)) (arr_s s)) ! length cs"
    using top by simp
  also have "\<dots> = c" using assms(2) by (simp add: stackArray_contents_def)
  finally have nth: "arr_s s ! length cs = c" .
  have 1: "stackArray_Pop s = Some (?s', c, None)"
    using top lt nth by (simp add: stackArray_Pop_def rd_def Let_def)
  have 2: "stackArray_wf ?s'" using assms(1) top by (simp add: stackArray_wf_def)
  have "take (length cs) (take (nat (top_s s + 1)) (arr_s s)) = cs"
    using assms(2) by (simp add: stackArray_contents_def)
  then have 3: "stackArray_contents ?s' = cs"
    using top by (simp add: stackArray_contents_def nat_add_distrib)
  show ?thesis using 1 2 3 by simp
qed

lemma stackArray_pop_n_ok:
  "stackArray_wf s \<Longrightarrow> stackArray_contents s = cs \<Longrightarrow>
   \<exists>s'. stackArray_pop_n s (length cs) = Some (s', rev cs)"
proof (induction cs arbitrary: s rule: rev_induct)
  case Nil
  then show ?case by simp
next
  case (snoc c cs)
  from stackArray_Pop_ok[OF snoc.prems]
  obtain s1 where s1: "stackArray_Pop s = Some (s1, c, None)" "stackArray_wf s1"
     "stackArray_contents s1 = cs" by blast
  from snoc.IH[OF s1(2,3)] obtain s2 where "stackArray_pop_n s1 (length cs) = Some (s2, rev cs)"
    by blast
  with s1 show ?case by simp
qed


lemma NewList_wf: "stackList_wf (NewList cap)" "node_vals (topNode (NewList cap)) = []"
  by (simp_all add: stackList_wf_def NewList_def)

lemma stackList_push_all_ok:
  "stackList_wf s \<Longrightarrow> top_l s + int (length xs) < capacity s \<Longrightarrow>
   \<exists>s'. stackList_push_all s xs = Some s' \<and> stackList_wf s' \<and>
        node_vals (topNode s') = rev xs @ node_vals (topNode s)"
proof (induction xs arbitrary: s)
  case Nil
  then show ?case by simp
next
  case (Cons x xs)
  let ?s1 = "s\<lparr>topNode := Node (topNode s) x, top_l := top_l s + 1\<rparr>"
  have 1: "stackList_Push s x = Some (?s1, None)"
    using Cons.prems by (simp add: stackList_Push_def)
  have 2: "stackList_wf ?s1" using Cons.prems by (simp add: stackList_wf_def)
  have 3: "top_l ?s1 + int (length xs) < capacity ?s1" using Cons.prems by simp
  from Cons.IH[OF 2 3] 1 show ?case by auto
qed

lemma stackList_pop_n_ok:
  "stackList_wf s \<Longrightarrow> node_vals (topNode s) = cs \<Longrightarrow>
   \<exists>s'. stackList_pop_n s (length cs) = Some (s', cs)"
proof (induction cs arbitrary: s)
  case Nil
  then show ?case by simp
next
  case (Cons c cs)
  then obtain nxt where n: "topNode s = Node nxt c" "node_vals nxt = cs"
    by (cases "topNode s") auto
  let ?s1 = "s\<lparr>topNode := nxt, top_l := top_l s - 1\<rparr>"
  have 1: "stackList_Pop s = Some (?s1, c, None)"
    using Cons.prems n by (simp add: stackList_Pop_def stackList_wf_def)
  have 2: "stackList_wf ?s1" using Cons.prems n by (simp add: stackList_wf_def)
  have 3: "node_vals (topNode ?s1) = cs" using n by simp
  from Cons.IH[OF 2 3] 1 show ?case by auto
qed

text \<open>
  C3.  For both backings: starting from a freshly constructed stack, pushing a sequence of
  values no longer than the capacity (\<open>StackMaxSize\<close> for the array stack; the capacity given
  to \<open>NewList\<close>, or \<open>StackMaxSize\<close> when none is given, for the list stack) succeeds at every
  push, and popping as many times then succeeds at every pop and returns the values in
  reverse push order.
\<close>

theorem stacks_are_LIFO:
  fixes xs :: "'a::zero list"
  shows "(int (length xs) \<le> StackMaxSize \<longrightarrow>
            (\<exists>s s'. stackArray_push_all NewArray xs = Some s \<and>
                    stackArray_pop_n s (length xs) = Some (s', rev xs))) \<and>
         (int (length xs) \<le> capacity (NewList cap :: 'a stackList) \<longrightarrow>
            (\<exists>s s'. stackList_push_all (NewList cap) xs = Some s \<and>
                    stackList_pop_n s (length xs) = Some (s', rev xs)))"
proof (intro conjI impI)
  assume le: "int (length xs) \<le> StackMaxSize"
  have "top_s (NewArray :: 'a stackArray) + int (length xs) < StackMaxSize"
    using le by (simp add: NewArray_def)
  from stackArray_push_all_ok[OF NewArray_wf(1) this]
  obtain s where s: "stackArray_push_all NewArray xs = Some s" "stackArray_wf s"
    "stackArray_contents s = xs" by (auto simp: NewArray_wf(2))
  from stackArray_pop_n_ok[OF s(2,3)] s(1)
  show "\<exists>s s'. stackArray_push_all NewArray xs = Some s \<and>
               stackArray_pop_n s (length xs) = Some (s', rev xs)" by blast
next
  assume le: "int (length xs) \<le> capacity (NewList cap :: 'a stackList)"
  have "top_l (NewList cap :: 'a stackList) + int (length xs) < capacity (NewList cap :: 'a stackList)"
    using le by (auto simp add: NewList_def)
  from stackList_push_all_ok[OF NewList_wf(1) this]
  obtain s where s: "stackList_push_all (NewList cap) xs = Some s" "stackList_wf s"
    "node_vals (topNode s) = rev xs" by (auto simp: NewList_wf(2))
  from stackList_pop_n_ok[OF s(2,3)] s(1)
  show "\<exists>s s'. stackList_push_all (NewList cap) xs = Some s \<and>
               stackList_pop_n s (length xs) = Some (s', rev xs)" by auto
qed

theorem stacks_are_LIFO_witness:
  "int (length [1, 2, 3 :: int]) \<le> StackMaxSize \<and>
   (\<exists>s s'. stackArray_push_all NewArray [1, 2, 3 :: int] = Some s \<and>
           stackArray_pop_n s (length [1, 2, 3 :: int]) = Some (s', rev [1, 2, 3])) \<and>
   int (length [1, 2, 3 :: int]) \<le> capacity (NewList [3] :: int stackList) \<and>
   (\<exists>s s'. stackList_push_all (NewList [3]) [1, 2, 3 :: int] = Some s \<and>
           stackList_pop_n s (length [1, 2, 3 :: int]) = Some (s', rev [1, 2, 3]))"
proof -
  have h1: "int (length [1, 2, 3 :: int]) \<le> StackMaxSize"
    by (simp add: StackMaxSize_def)
  have h2: "int (length [1, 2, 3 :: int]) \<le> capacity (NewList [3] :: int stackList)"
    by (simp add: NewList_def)
  from stacks_are_LIFO [of "[1, 2, 3 :: int]" "[3]"] h1 h2 show ?thesis
    by blast
qed

section \<open>Properties of the singly linked list\<close>

lemma reachable_uni_vals: "reachable h = length (uni_vals h)"
  by (induction h) auto

lemma uni_vals_Nil_iff: "uni_vals h = [] \<longleftrightarrow> h = Nil_uni"
  by (cases h) auto

lemma Traverse_loop_record: "Traverse_loop h (\<lambda>v seen. seen @ [v]) acc = acc @ uni_vals h"
  by (induction h arbitrary: acc) auto

lemma traversal_uni_vals: "traversal l = uni_vals (head l)"
  by (simp add: traversal_def Traverse_def Traverse_loop_record)

lemma InsertAtEnd_walk_ok:
  "h \<noteq> Nil_uni \<Longrightarrow>
   \<exists>h'. InsertAtEnd_walk h n = Some h' \<and> uni_vals h' = uni_vals h @ uni_vals n"
proof (induction h)
  case Nil_uni
  then show ?case by simp
next
  case (UniNode nxt v)
  show ?case
  proof (cases "nxt = Nil_uni")
    case True
    then show ?thesis by simp
  next
    case False
    from UniNode.IH[OF False] obtain h1 where
      "InsertAtEnd_walk nxt n = Some h1" "uni_vals h1 = uni_vals nxt @ uni_vals n" by blast
    with False show ?thesis by simp
  qed
qed

lemma InsertAtPosition_walk_ok:
  "i \<le> pos \<Longrightarrow> nat (pos - i) < length (uni_vals h) \<Longrightarrow>
   \<exists>h'. InsertAtPosition_walk h i pos val = Some h' \<and>
        uni_vals h' = take (Suc (nat (pos - i))) (uni_vals h) @ val #
                      drop (Suc (nat (pos - i))) (uni_vals h)"
proof (induction h arbitrary: i)
  case Nil_uni
  then show ?case by simp
next
  case (UniNode nxt v)
  show ?case
  proof (cases "i < pos")
    case True
    then have k: "nat (pos - i) = Suc (nat (pos - (i + 1)))" by linarith
    with UniNode.prems have "nat (pos - (i + 1)) < length (uni_vals nxt)" by simp
    moreover from True have "i + 1 \<le> pos" by simp
    ultimately obtain h1 where
      "InsertAtPosition_walk nxt (i + 1) pos val = Some h1"
      "uni_vals h1 = take (Suc (nat (pos - (i + 1)))) (uni_vals nxt) @ val #
                     drop (Suc (nat (pos - (i + 1)))) (uni_vals nxt)"
      using UniNode.IH by blast
    with True k show ?thesis by simp
  next
    case False
    with UniNode.prems have "pos - i = 0" by simp
    with False show ?thesis by simp
  qed
qed

lemma DeleteFromEnd_walk_ok:
  "2 \<le> length (uni_vals h) \<Longrightarrow>
   \<exists>h'. DeleteFromEnd_walk h = Some (h', last (uni_vals h)) \<and>
        uni_vals h' = butlast (uni_vals h)"
proof (induction h rule: DeleteFromEnd_walk.induct)
  case 1
  then show ?case by simp
next
  case (2 v)
  then show ?case by simp
next
  case (3 nxt2 v2 v)
  show ?case
  proof (cases "nxt2 = Nil_uni")
    case True
    then show ?thesis by simp
  next
    case False
    then have "2 \<le> length (uni_vals (UniNode nxt2 v2))" by (cases nxt2) auto
    from 3(1)[OF False this] obtain h1 where
      "DeleteFromEnd_walk (UniNode nxt2 v2) = Some (h1, last (uni_vals (UniNode nxt2 v2)))"
      "uni_vals h1 = butlast (uni_vals (UniNode nxt2 v2))" by blast
    with False show ?thesis by simp
  qed
qed

lemma DeleteAtPosition_walk_ok:
  "i < pos \<Longrightarrow> nat (pos - i) < length (uni_vals h) \<Longrightarrow>
   \<exists>h'. DeleteAtPosition_walk h i pos = Some (h', uni_vals h ! nat (pos - i)) \<and>
        uni_vals h' = take (nat (pos - i)) (uni_vals h) @ drop (Suc (nat (pos - i))) (uni_vals h)"
proof (induction h arbitrary: i)
  case Nil_uni
  then show ?case by simp
next
  case (UniNode nxt v)
  show ?case
  proof (cases "i < pos - 1")
    case True
    then have k: "nat (pos - i) = Suc (nat (pos - (i + 1)))" by linarith
    with UniNode.prems have "nat (pos - (i + 1)) < length (uni_vals nxt)" by simp
    moreover from True have "i + 1 < pos" by simp
    ultimately obtain h1 where
      "DeleteAtPosition_walk nxt (i + 1) pos = Some (h1, uni_vals nxt ! nat (pos - (i + 1)))"
      "uni_vals h1 = take (nat (pos - (i + 1))) (uni_vals nxt) @
                     drop (Suc (nat (pos - (i + 1)))) (uni_vals nxt)"
      using UniNode.IH by blast
    with True k show ?thesis by simp
  next
    case False
    with UniNode.prems have k: "nat (pos - i) = Suc 0" by linarith
    with UniNode.prems obtain nxt2 v2 where "nxt = UniNode nxt2 v2"
      by (cases nxt) auto
    with False k show ?thesis by simp
  qed
qed


lemma sll_wf_length: "sll_wf l \<Longrightarrow> length_l l = int (length (uni_vals (head l)))"
  by (simp add: sll_wf_def reachable_uni_vals)

lemma sll_wfI: "length_l l = int (length (uni_vals (head l))) \<Longrightarrow> sll_wf l"
  by (simp add: sll_wf_def reachable_uni_vals)

lemma InsertAtBeginning_ok:
  "\<exists>l'. InsertAtBeginning l v = Some (l', None) \<and> uni_vals (head l') = v # uni_vals (head l) \<and>
        length_l l' = length_l l + 1"
  by (simp add: InsertAtBeginning_def)

lemma InsertAtEnd_ok:
  assumes "head l \<noteq> Nil_uni"
  shows "\<exists>l'. InsertAtEnd l v = Some (l', None) \<and> uni_vals (head l') = uni_vals (head l) @ [v] \<and>
              length_l l' = length_l l + 1"
proof -
  from InsertAtEnd_walk_ok[OF assms, of "UniNode Nil_uni v"] obtain h where
    "InsertAtEnd_walk (head l) (UniNode Nil_uni v) = Some h"
    "uni_vals h = uni_vals (head l) @ [v]" by auto
  with assms show ?thesis by (simp add: InsertAtEnd_def)
qed

lemma InsertAtPosition_general:
  assumes "sll_wf l" "0 < pos" "pos \<le> length_l l" "pos \<noteq> length_l l - 1"
  shows "\<exists>l'. InsertAtPosition l v pos = Some (l', None) \<and>
              uni_vals (head l') = take (nat pos) (uni_vals (head l)) @ v #
                                   drop (nat pos) (uni_vals (head l)) \<and>
              length_l l' = length_l l + 1"
proof -
  have "nat (pos - 1) < length (uni_vals (head l))"
    using assms sll_wf_length[OF assms(1)] by linarith
  moreover have "1 \<le> pos" using assms by simp
  ultimately obtain h where h:
    "InsertAtPosition_walk (head l) 1 pos v = Some h"
    "uni_vals h = take (Suc (nat (pos - 1))) (uni_vals (head l)) @ v #
                  drop (Suc (nat (pos - 1))) (uni_vals (head l))"
    using InsertAtPosition_walk_ok[of 1 pos "head l" v] by blast
  have "Suc (nat (pos - 1)) = nat pos" using assms by linarith
  with h assms show ?thesis by (simp add: InsertAtPosition_def)
qed

lemma InsertAtPosition_delegates_end:
  assumes "sll_wf l" "0 < pos" "pos = length_l l - 1"
  shows "InsertAtPosition l v pos = InsertAtEnd l v" "head l \<noteq> Nil_uni"
proof -
  show "InsertAtPosition l v pos = InsertAtEnd l v"
    using assms by (simp add: InsertAtPosition_def)
  show "head l \<noteq> Nil_uni"
    using assms sll_wf_length[OF assms(1)] by auto
qed

lemma InsertAtPosition_succeeds:
  assumes "sll_wf l" "0 \<le> pos" "pos \<le> length_l l"
  shows "\<exists>l'. InsertAtPosition l v pos = Some (l', None) \<and> sll_wf l' \<and>
              length_l l' = length_l l + 1"
proof -
  note len = sll_wf_length[OF assms(1)]
  consider "pos = 0" | "0 < pos" "pos = length_l l - 1" | "0 < pos" "pos \<noteq> length_l l - 1"
    using assms by linarith
  then show ?thesis
  proof cases
    case 1
    from InsertAtBeginning_ok[of l v] obtain l' where
      "InsertAtBeginning l v = Some (l', None)" "uni_vals (head l') = v # uni_vals (head l)"
      "length_l l' = length_l l + 1" by blast
    with 1 assms len show ?thesis by (auto simp: InsertAtPosition_def intro!: sll_wfI)
  next
    case 2
    from InsertAtPosition_delegates_end[OF assms(1) 2] InsertAtEnd_ok[of l v] obtain l' where
      "InsertAtPosition l v pos = Some (l', None)" "uni_vals (head l') = uni_vals (head l) @ [v]"
      "length_l l' = length_l l + 1" by metis
    with len show ?thesis by (auto intro!: sll_wfI)
  next
    case 3
    from InsertAtPosition_general[OF assms(1) 3(1) assms(3) 3(2), of v] obtain l' where
      "InsertAtPosition l v pos = Some (l', None)"
      "uni_vals (head l') = take (nat pos) (uni_vals (head l)) @ v # drop (nat pos) (uni_vals (head l))"
      "length_l l' = length_l l + 1" by blast
    with len assms show ?thesis by (auto intro!: sll_wfI)
  qed
qed

lemma DeleteFromBeginning_ok:
  assumes "sll_wf l" "length_l l \<noteq> 0"
  shows "\<exists>l'. DeleteFromBeginning l = Some (l', hd (uni_vals (head l)), None) \<and>
              uni_vals (head l') = tl (uni_vals (head l)) \<and> length_l l' = length_l l - 1"
proof -
  from assms sll_wf_length[OF assms(1)] obtain nxt v where "head l = UniNode nxt v"
    by (cases "head l") auto
  with assms show ?thesis by (simp add: DeleteFromBeginning_def)
qed

lemma DeleteFromEnd_ok:
  assumes "sll_wf l" "length_l l \<noteq> 0"
  shows "\<exists>l'. DeleteFromEnd l = Some (l', last (uni_vals (head l)), None) \<and>
              uni_vals (head l') = butlast (uni_vals (head l)) \<and> length_l l' = length_l l - 1"
proof (cases "length_l l = 1")
  case True
  with sll_wf_length[OF assms(1)] obtain x where x: "uni_vals (head l) = [x]"
    by (cases "uni_vals (head l)") auto
  from DeleteFromBeginning_ok[OF assms] True x show ?thesis
    by (simp add: DeleteFromEnd_def)
next
  case False
  with assms sll_wf_length[OF assms(1)] have "2 \<le> length (uni_vals (head l))" by linarith
  from DeleteFromEnd_walk_ok[OF this] obtain h where
    "DeleteFromEnd_walk (head l) = Some (h, last (uni_vals (head l)))"
    "uni_vals h = butlast (uni_vals (head l))" by blast
  with False assms show ?thesis by (simp add: DeleteFromEnd_def)
qed

lemma DeleteAtPosition_ok:
  assumes "sll_wf l" "0 \<le> pos" "pos < length_l l"
  shows "\<exists>l'. DeleteAtPosition l pos = Some (l', uni_vals (head l) ! nat pos, None) \<and>
              uni_vals (head l') = take (nat pos) (uni_vals (head l)) @
                                   drop (Suc (nat pos)) (uni_vals (head l)) \<and>
              length_l l' = length_l l - 1"
proof -
  note len = sll_wf_length[OF assms(1)]
  have ne: "length_l l \<noteq> 0" "uni_vals (head l) \<noteq> []" using assms len by auto
  consider "pos = 0" | "0 < pos" "pos = length_l l - 1" | "0 < pos" "pos \<noteq> length_l l - 1"
    using assms by linarith
  then show ?thesis
  proof cases
    case 1
    from DeleteFromBeginning_ok[OF assms(1) ne(1)] 1 assms ne(2) show ?thesis
      by (simp add: DeleteAtPosition_def hd_conv_nth drop_Suc)
  next
    case 2
    then have "nat pos = length (uni_vals (head l)) - 1" using len by simp
    with DeleteFromEnd_ok[OF assms(1) ne(1)] 2 assms ne(2) show ?thesis
      by (simp add: DeleteAtPosition_def last_conv_nth butlast_conv_take)
  next
    case 3
    have "nat (pos - 0) < length (uni_vals (head l))" using assms len by simp
    from DeleteAtPosition_walk_ok[OF _ this] 3 obtain h where
      "DeleteAtPosition_walk (head l) 0 pos = Some (h, uni_vals (head l) ! nat pos)"
      "uni_vals h = take (nat pos) (uni_vals (head l)) @ drop (Suc (nat pos)) (uni_vals (head l))"
      by auto
    with 3 assms show ?thesis by (simp add: DeleteAtPosition_def)
  qed
qed


lemma int_length_pred: "xs \<noteq> [] \<Longrightarrow> int (length xs) - 1 = int (length xs - Suc 0)"
  by (cases xs) auto

lemma sll_step_ok:
  assumes "sll_wf l"
  shows "\<exists>l' e. sll_step l x = Some (l', e) \<and> sll_wf l' \<and>
           (case e of
              None \<Rightarrow> length_l l' = length_l l + (if is_insert x then 1 else 0)
                                                  - (if is_delete x then 1 else 0)
            | Some m \<Rightarrow> l' = l)"
proof -
  note len = sll_wf_length[OF assms]
  show ?thesis
  proof (cases x)
    case (OpInsertAtBeginning v)
    from InsertAtBeginning_ok[of l v] obtain l' where
      "InsertAtBeginning l v = Some (l', None)" "uni_vals (head l') = v # uni_vals (head l)"
      "length_l l' = length_l l + 1" by blast
    with OpInsertAtBeginning len show ?thesis by (auto intro!: sll_wfI)
  next
    case (OpInsertAtEnd v)
    show ?thesis
    proof (cases "head l = Nil_uni")
      case True
      with OpInsertAtEnd assms show ?thesis by (simp add: InsertAtEnd_def)
    next
      case False
      from InsertAtEnd_ok[OF False, of v] obtain l' where
        "InsertAtEnd l v = Some (l', None)" "uni_vals (head l') = uni_vals (head l) @ [v]"
        "length_l l' = length_l l + 1" by blast
      with OpInsertAtEnd len show ?thesis by (auto intro!: sll_wfI)
    qed
  next
    case (OpInsertAtPosition v pos)
    show ?thesis
    proof (cases "pos < 0 \<or> pos > length_l l")
      case True
      with OpInsertAtPosition assms show ?thesis by (simp add: InsertAtPosition_def)
    next
      case False
      then have "0 \<le> pos" "pos \<le> length_l l" by auto
      from InsertAtPosition_succeeds[OF assms this, of v] OpInsertAtPosition
      show ?thesis by auto
    qed
  next
    case OpDeleteFromBeginning
    show ?thesis
    proof (cases "length_l l = 0")
      case True
      with OpDeleteFromBeginning assms show ?thesis by (simp add: DeleteFromBeginning_def)
    next
      case False
      from DeleteFromBeginning_ok[OF assms False] obtain l' where
        "DeleteFromBeginning l = Some (l', hd (uni_vals (head l)), None)"
        "uni_vals (head l') = tl (uni_vals (head l))" "length_l l' = length_l l - 1" by blast
      with OpDeleteFromBeginning len False show ?thesis
        by (auto intro!: sll_wfI simp: int_length_pred)
    qed
  next
    case OpDeleteFromEnd
    show ?thesis
    proof (cases "length_l l = 0")
      case True
      with OpDeleteFromEnd assms show ?thesis by (simp add: DeleteFromEnd_def)
    next
      case False
      from DeleteFromEnd_ok[OF assms False] obtain l' where
        "DeleteFromEnd l = Some (l', last (uni_vals (head l)), None)"
        "uni_vals (head l') = butlast (uni_vals (head l))" "length_l l' = length_l l - 1" by blast
      with OpDeleteFromEnd len False show ?thesis
        by (auto intro!: sll_wfI simp: int_length_pred)
    qed
  next
    case (OpDeleteAtPosition pos)
    show ?thesis
    proof (cases "pos < 0 \<or> pos \<ge> length_l l")
      case True
      with OpDeleteAtPosition assms show ?thesis by (simp add: DeleteAtPosition_def)
    next
      case False
      then have "0 \<le> pos" "pos < length_l l" by auto
      from DeleteAtPosition_ok[OF assms this] obtain l' where
        "DeleteAtPosition l pos = Some (l', uni_vals (head l) ! nat pos, None)"
        "uni_vals (head l') = take (nat pos) (uni_vals (head l)) @
                              drop (Suc (nat pos)) (uni_vals (head l))"
        "length_l l' = length_l l - 1" by blast
      with OpDeleteAtPosition len \<open>pos < length_l l\<close> \<open>0 \<le> pos\<close> show ?thesis
        by (auto intro!: sll_wfI)
    qed
  next
    case (OpSearch v)
    with assms show ?thesis by (simp split: prod.splits)
  next
    case OpTraverse
    with assms show ?thesis by simp
  qed
qed

lemma sll_run_ok:
  "sll_wf l \<Longrightarrow> length_l l = ins - del \<Longrightarrow>
   \<exists>l' ins' del'. sll_run l ins del ops = Some (l', ins', del') \<and> sll_wf l' \<and>
                  length_l l' = ins' - del'"
proof (induction ops arbitrary: l ins del)
  case Nil
  then show ?case by simp
next
  case (Cons x ops)
  from sll_step_ok[OF Cons.prems(1), of x] obtain l1 e where s:
    "sll_step l x = Some (l1, e)" "sll_wf l1"
    "case e of None \<Rightarrow> length_l l1 = length_l l + (if is_insert x then 1 else 0)
                                                  - (if is_delete x then 1 else 0)
     | Some m \<Rightarrow> l1 = l" by blast
  show ?case
  proof (cases e)
    case None
    let ?i = "if is_insert x then ins + 1 else ins"
    let ?d = "if is_delete x then del + 1 else del"
    from s(3) None Cons.prems(2) have "length_l l1 = ?i - ?d" by simp
    from Cons.IH[OF s(2) this] s(1) None show ?thesis by simp
  next
    case (Some m)
    with s(3) Cons.prems(2) have "length_l l1 = ins - del" by simp
    from Cons.IH[OF s(2) this] s(1) Some show ?thesis by simp
  qed
qed

text \<open>
  C9.  Every sequence of operations of the singly linked list, run from the empty list,
  returns from every call, and in the resulting list \<open>length\<close> is the number of nodes
  reachable from \<open>head\<close> (so \<open>length\<close> is 0 exactly when \<open>head\<close> is nil) and is the number of
  insertions that succeeded minus the number of deletions that succeeded.
\<close>

theorem sll_length_counts_nodes:
  "\<exists>l ins del. sll_run (NewSLL :: 'a::zero SinglyLinkedList) 0 0 ops = Some (l, ins, del) \<and>
      length_l l = int (reachable (head l)) \<and>
      (length_l l = 0) = (head l = Nil_uni) \<and>
      length_l l = ins - del"
proof -
  have "sll_wf (NewSLL :: 'a SinglyLinkedList)" "length_l (NewSLL :: 'a SinglyLinkedList) = 0 - 0"
    by (simp_all add: sll_wf_def NewSLL_def)
  from sll_run_ok[OF this, of ops] obtain l ins del where r:
    "sll_run (NewSLL :: 'a SinglyLinkedList) 0 0 ops = Some (l, ins, del)" "sll_wf l"
    "length_l l = ins - del" by blast
  from r(2) have "(length_l l = 0) = (head l = Nil_uni)"
    by (simp add: sll_wf_length uni_vals_Nil_iff)
  with r show ?thesis by (auto simp: sll_wf_def)
qed


text \<open>
  C6.  \<open>InsertAtEnd\<close> on a list without head returns the error "Cannot insert at end of
  empty list" and leaves the list as it was; on every list with a head it succeeds, the new
  value comes after all the values the list held (one more node is reachable), and \<open>length\<close>
  grows by 1.
\<close>

theorem InsertAtEnd_contract:
  "(head l = Nil_uni \<longrightarrow> InsertAtEnd l v = Some (l, Some ErrInsertEmpty)) \<and>
   (head l \<noteq> Nil_uni \<longrightarrow>
      (\<exists>l'. InsertAtEnd l v = Some (l', None) \<and>
            traversal l' = traversal l @ [v] \<and>
            reachable (head l') = reachable (head l) + 1 \<and>
            length_l l' = length_l l + 1))"
proof (intro conjI impI)
  assume "head l = Nil_uni"
  then show "InsertAtEnd l v = Some (l, Some ErrInsertEmpty)"
    by (simp add: InsertAtEnd_def)
next
  assume "head l \<noteq> Nil_uni"
  from InsertAtEnd_ok[OF this, of v]
  show "\<exists>l'. InsertAtEnd l v = Some (l', None) \<and>
            traversal l' = traversal l @ [v] \<and>
            reachable (head l') = reachable (head l) + 1 \<and>
            length_l l' = length_l l + 1"
    by (auto simp: traversal_uni_vals reachable_uni_vals)
qed

theorem InsertAtEnd_contract_witness:
  "head (NewSLL :: int SinglyLinkedList) = Nil_uni \<and>
   InsertAtEnd (NewSLL :: int SinglyLinkedList) 7 = Some (NewSLL, Some ErrInsertEmpty) \<and>
   head sll_example \<noteq> Nil_uni \<and>
   (\<exists>l'. InsertAtEnd sll_example 7 = Some (l', None) \<and>
         traversal l' = traversal sll_example @ [7] \<and>
         reachable (head l') = reachable (head sll_example) + 1 \<and>
         length_l l' = length_l sll_example + 1)"
proof -
  have h1: "head (NewSLL :: int SinglyLinkedList) = Nil_uni" by (simp add: NewSLL_def)
  have h2: "head sll_example \<noteq> Nil_uni" by (simp add: sll_example_def)
  from InsertAtEnd_contract [of "NewSLL :: int SinglyLinkedList" 7]
       InsertAtEnd_contract [of sll_example 7] h1 h2
  show ?thesis by blast
qed

text \<open>
  C4.  On a list whose \<open>length\<close> counts its nodes, the cases of \<open>InsertAtPosition\<close> in the
  order the method tests them: a position below 0 or above \<open>length\<close> gives the error "Invalid
  position for insertion" and the list unchanged, every other position succeeds; position 0
  is \<open>InsertAtBeginning\<close>; a position \<open>length - 1\<close> other than 0 is \<open>InsertAtEnd\<close>; any other
  position puts the new value after exactly \<open>pos\<close> values and adds 1 to \<open>length\<close>.
\<close>

theorem InsertAtPosition_contract:
  assumes "sll_wf l"
  shows "(pos < 0 \<or> pos > length_l l \<longrightarrow>
            InsertAtPosition l v pos = Some (l, Some ErrInvalidInsertPos)) \<and>
         (0 \<le> pos \<and> pos \<le> length_l l \<longrightarrow>
            (\<exists>l'. InsertAtPosition l v pos = Some (l', None))) \<and>
         (pos = 0 \<longrightarrow> InsertAtPosition l v pos = InsertAtBeginning l v) \<and>
         (0 < pos \<and> pos = length_l l - 1 \<longrightarrow> InsertAtPosition l v pos = InsertAtEnd l v) \<and>
         (0 < pos \<and> pos \<le> length_l l \<and> pos \<noteq> length_l l - 1 \<longrightarrow>
            (\<exists>l'. InsertAtPosition l v pos = Some (l', None) \<and>
                  traversal l' = take (nat pos) (traversal l) @ [v] @ drop (nat pos) (traversal l) \<and>
                  length (take (nat pos) (traversal l)) = nat pos \<and>
                  length_l l' = length_l l + 1))"
proof (intro conjI impI)
  assume "pos < 0 \<or> pos > length_l l"
  then show "InsertAtPosition l v pos = Some (l, Some ErrInvalidInsertPos)"
    by (simp add: InsertAtPosition_def)
next
  assume "0 \<le> pos \<and> pos \<le> length_l l"
  with InsertAtPosition_succeeds[OF assms, of pos v]
  show "\<exists>l'. InsertAtPosition l v pos = Some (l', None)" by blast
next
  assume "pos = 0"
  with sll_wf_length[OF assms] show "InsertAtPosition l v pos = InsertAtBeginning l v"
    by (simp add: InsertAtPosition_def)
next
  assume "0 < pos \<and> pos = length_l l - 1"
  with InsertAtPosition_delegates_end(1)[OF assms, of pos v]
  show "InsertAtPosition l v pos = InsertAtEnd l v" by blast
next
  assume a: "0 < pos \<and> pos \<le> length_l l \<and> pos \<noteq> length_l l - 1"
  then have "nat pos \<le> length (uni_vals (head l))"
    using sll_wf_length[OF assms] by linarith
  then have "length (take (nat pos) (traversal l)) = nat pos"
    by (simp add: traversal_uni_vals)
  with a InsertAtPosition_general[OF assms, of pos v]
  show "\<exists>l'. InsertAtPosition l v pos = Some (l', None) \<and>
             traversal l' = take (nat pos) (traversal l) @ [v] @ drop (nat pos) (traversal l) \<and>
             length (take (nat pos) (traversal l)) = nat pos \<and>
             length_l l' = length_l l + 1"
    by (auto simp: traversal_uni_vals)
qed

theorem InsertAtPosition_contract_witness:
  "sll_run NewSLL 0 0 [OpInsertAtBeginning 3, OpInsertAtBeginning 2, OpInsertAtBeginning 1]
     = Some (sll_example, 3, 0) \<and>
   sll_wf sll_example \<and>
   ((5::int) < 0 \<or> 5 > length_l sll_example) \<and>
   InsertAtPosition sll_example 9 5 = Some (sll_example, Some ErrInvalidInsertPos) \<and>
   ((0::int) \<le> 3 \<and> 3 \<le> length_l sll_example) \<and>
   (\<exists>l'. InsertAtPosition sll_example 9 3 = Some (l', None)) \<and>
   InsertAtPosition sll_example 9 0 = InsertAtBeginning sll_example 9 \<and>
   ((0::int) < 2 \<and> 2 = length_l sll_example - 1) \<and>
   InsertAtPosition sll_example 9 2 = InsertAtEnd sll_example 9 \<and>
   ((0::int) < 1 \<and> 1 \<le> length_l sll_example \<and> 1 \<noteq> length_l sll_example - 1) \<and>
   (\<exists>l'. InsertAtPosition sll_example 9 1 = Some (l', None) \<and>
         traversal l' = take (nat 1) (traversal sll_example) @ [9] @
                        drop (nat 1) (traversal sll_example) \<and>
         length (take (nat 1) (traversal sll_example)) = nat 1 \<and>
         length_l l' = length_l sll_example + 1)"
proof -
  have r: "sll_run NewSLL 0 0 [OpInsertAtBeginning 3, OpInsertAtBeginning 2, OpInsertAtBeginning 1]
             = Some (sll_example, 3, 0)"
    by (simp add: NewSLL_def InsertAtBeginning_def sll_example_def)
  have wf: "sll_wf sll_example" by (simp add: sll_wf_def sll_example_def)
  have h1: "(5::int) < 0 \<or> 5 > length_l sll_example" by (simp add: sll_example_def)
  have h2: "(0::int) \<le> 3 \<and> 3 \<le> length_l sll_example" by (simp add: sll_example_def)
  have h3: "(0::int) < 2 \<and> 2 = length_l sll_example - 1" by (simp add: sll_example_def)
  have h4: "(0::int) < 1 \<and> 1 \<le> length_l sll_example \<and> 1 \<noteq> length_l sll_example - 1"
    by (simp add: sll_example_def)
  from InsertAtPosition_contract [OF wf, of 5 9] h1
  have c1: "InsertAtPosition sll_example 9 5 = Some (sll_example, Some ErrInvalidInsertPos)"
    by blast
  from InsertAtPosition_contract [OF wf, of 3 9] h2
  have c2: "\<exists>l'. InsertAtPosition sll_example 9 3 = Some (l', None)" by blast
  from InsertAtPosition_contract [OF wf, of 0 9]
  have c3: "InsertAtPosition sll_example 9 0 = InsertAtBeginning sll_example 9" by blast
  from InsertAtPosition_contract [OF wf, of 2 9] h3
  have c4: "InsertAtPosition sll_example 9 2 = InsertAtEnd sll_example 9" by blast
  from InsertAtPosition_contract [OF wf, of 1 9] h4
  have c5: "\<exists>l'. InsertAtPosition sll_example 9 1 = Some (l', None) \<and>
         traversal l' = take (nat 1) (traversal sll_example) @ [9] @
                        drop (nat 1) (traversal sll_example) \<and>
         length (take (nat 1) (traversal sll_example)) = nat 1 \<and>
         length_l l' = length_l sll_example + 1" by blast
  from r wf h1 h2 h3 h4 c1 c2 c3 c4 c5 show ?thesis by blast
qed

text \<open>
  C10.  On every list whose \<open>length\<close> counts its nodes, the empty one included,
  \<open>InsertAtPosition(v, length)\<close> succeeds, \<open>v\<close> becomes the last value in traversal order and
  \<open>length\<close> grows by 1; this although \<open>InsertAtEnd\<close> rejects the empty list, and although
  position \<open>length - 1\<close> of a list of two or more nodes is delegated to \<open>InsertAtEnd\<close> and so
  also puts \<open>v\<close> last.
\<close>

theorem InsertAtPosition_length_appends:
  assumes "sll_wf l"
  shows "(\<exists>l'. InsertAtPosition l v (length_l l) = Some (l', None) \<and>
               traversal l' = traversal l @ [v] \<and>
               last (traversal l') = v \<and>
               length_l l' = length_l l + 1) \<and>
         InsertAtEnd (NewSLL :: 'a SinglyLinkedList) v = Some (NewSLL, Some ErrInsertEmpty) \<and>
         (2 \<le> length_l l \<longrightarrow>
            (\<exists>l'. InsertAtPosition l v (length_l l - 1) = Some (l', None) \<and>
                  traversal l' = traversal l @ [v]))"
proof (intro conjI impI)
  note len = sll_wf_length[OF assms]
  show "\<exists>l'. InsertAtPosition l v (length_l l) = Some (l', None) \<and>
             traversal l' = traversal l @ [v] \<and> last (traversal l') = v \<and>
             length_l l' = length_l l + 1"
  proof (cases "length_l l = 0")
    case True
    with len have "uni_vals (head l) = []" by simp
    with True InsertAtBeginning_ok[of l v] show ?thesis
      by (auto simp: InsertAtPosition_def traversal_uni_vals)
  next
    case False
    with len have "0 < length_l l" by simp
    from InsertAtPosition_general[OF assms this, of v] len show ?thesis
      by (auto simp: traversal_uni_vals)
  qed
next
  show "InsertAtEnd (NewSLL :: 'a SinglyLinkedList) v = Some (NewSLL, Some ErrInsertEmpty)"
    by (simp add: InsertAtEnd_def NewSLL_def)
next
  assume "2 \<le> length_l l"
  then have p: "0 < length_l l - 1" by simp
  from InsertAtPosition_delegates_end(1)[OF assms p, of v]
       InsertAtPosition_delegates_end(2)[OF assms p] InsertAtEnd_ok[of l v]
  show "\<exists>l'. InsertAtPosition l v (length_l l - 1) = Some (l', None) \<and>
             traversal l' = traversal l @ [v]"
    by (auto simp: traversal_uni_vals)
qed

theorem InsertAtPosition_length_appends_witness:
  "sll_wf sll_example \<and>
   (\<exists>l'. InsertAtPosition sll_example 9 (length_l sll_example) = Some (l', None) \<and>
         traversal l' = traversal sll_example @ [9] \<and>
         last (traversal l') = 9 \<and>
         length_l l' = length_l sll_example + 1) \<and>
   sll_wf (NewSLL :: int SinglyLinkedList) \<and>
   (\<exists>l'. InsertAtPosition (NewSLL :: int SinglyLinkedList) 9 (length_l (NewSLL :: int SinglyLinkedList))
           = Some (l', None) \<and>
         traversal l' = traversal (NewSLL :: int SinglyLinkedList) @ [9] \<and>
         last (traversal l') = 9 \<and>
         length_l l' = length_l (NewSLL :: int SinglyLinkedList) + 1) \<and>
   2 \<le> length_l sll_example \<and>
   (\<exists>l'. InsertAtPosition sll_example 9 (length_l sll_example - 1) = Some (l', None) \<and>
         traversal l' = traversal sll_example @ [9])"
proof -
  have wf: "sll_wf sll_example" by (simp add: sll_wf_def sll_example_def)
  have wf0: "sll_wf (NewSLL :: int SinglyLinkedList)" by (simp add: sll_wf_def NewSLL_def)
  have h: "2 \<le> length_l sll_example" by (simp add: sll_example_def)
  from InsertAtPosition_length_appends [OF wf, of 9]
       InsertAtPosition_length_appends [OF wf0, of 9] wf wf0 h
  show ?thesis by blast
qed

end
